theory Spec2Isabelle
  imports Complex_Main "HOL-Library.Multiset"
begin


section \<open>JavaScript strings\<close>

text \<open>
  File names and series names are modelled as lists of 8-bit characters. All constants
  the program compares against are ASCII, and \<open>toLowerCase\<close> acts on the ASCII
  letters; any other character is left as it is.
\<close>

definition isUpper :: "char \<Rightarrow> bool" where
  "isUpper c = (65 \<le> (of_char c :: nat) \<and> (of_char c :: nat) \<le> 90)"

definition isLower :: "char \<Rightarrow> bool" where
  "isLower c = (97 \<le> (of_char c :: nat) \<and> (of_char c :: nat) \<le> 122)"

definition isDigit :: "char \<Rightarrow> bool" where
  "isDigit c = (48 \<le> (of_char c :: nat) \<and> (of_char c :: nat) \<le> 57)"

definition lowerChar :: "char \<Rightarrow> char" where
  "lowerChar c = (if isUpper c then char_of ((of_char c :: nat) + 32) else c)"

definition toLowerCase :: "string \<Rightarrow> string" where
  "toLowerCase s = map lowerChar s"

definition startsWith :: "string \<Rightarrow> string \<Rightarrow> bool" where
  "startsWith s p = (take (length p) s = p)"

definition endsWith :: "string \<Rightarrow> string \<Rightarrow> bool" where
  "endsWith s p = (length p \<le> length s \<and> drop (length s - length p) s = p)"

fun includesStr :: "string \<Rightarrow> string \<Rightarrow> bool" where
  "includesStr [] p = (p = [])"
| "includesStr (c # cs) p = (startsWith (c # cs) p \<or> includesStr cs p)"

text \<open>\<open>s.split(c)\<close> for a one-character separator: never the empty list.\<close>

fun split :: "char \<Rightarrow> string \<Rightarrow> string list" where
  "split c [] = [[]]"
| "split c (x # xs) =
     (if x = c then [] # split c xs
      else (case split c xs of [] \<Rightarrow> [[x]] | s # ss \<Rightarrow> (x # s) # ss))"

text \<open>\<open>arr.pop()\<close> read as a value: the last element (the array is never empty here).\<close>

definition pop :: "string list \<Rightarrow> string" where
  "pop ss = last ss"

section \<open>FileUtils and StringUtils\<close>

definition imageExtensions :: "string list" where
  "imageExtensions = [''jpg'', ''jpeg'', ''png'', ''gif'', ''webp'']"

definition isImage :: "string \<Rightarrow> bool" where
  "isImage filename = (pop (split CHR ''.'' (toLowerCase filename)) \<in> set imageExtensions)"

definition isJSON :: "string \<Rightarrow> bool" where
  "isJSON filename = endsWith (toLowerCase filename) ''.json''"

text \<open>
  \<open>filename.replace(/\.(jpg|jpeg|png|gif|webp|json)$/i, '')\<close>: the pattern is anchored at
  the end and an extension holds no dot, so at most one suffix matches; it is removed.
\<close>

definition mediaSuffixes :: "string list" where
  "mediaSuffixes = [''.jpg'', ''.jpeg'', ''.png'', ''.gif'', ''.webp'', ''.json'']"

definition getBaseName :: "string \<Rightarrow> string" where
  "getBaseName filename =
     (case filter (endsWith (toLowerCase filename)) mediaSuffixes of
        [] \<Rightarrow> filename
      | suf # _ \<Rightarrow> take (length filename - length suf) filename)"

text \<open>\<open>str.replace(/[^a-zA-Z0-9-_]/g, '_').toLowerCase()\<close>\<close>

definition sanitizeChar :: "char \<Rightarrow> char" where
  "sanitizeChar c =
     (if isLower c \<or> isUpper c \<or> isDigit c \<or> c = CHR ''-'' \<or> c = CHR ''_'' then c
      else CHR ''_'')"

definition sanitize :: "string \<Rightarrow> string" where
  "sanitize str = toLowerCase (map sanitizeChar str)"

section \<open>FileManager: utility functions\<close>

definition shouldSkipFile :: "string \<Rightarrow> bool" where
  "shouldSkipFile filename =
     (let name = toLowerCase filename in
      if startsWith name ''.'' \<or> includesStr name ''/.'' then True
      else if includesStr name ''__macosx'' \<or> includesStr name ''thumbs.db'' then True
      else (let ext = pop (split CHR ''.'' name) in
            if ext \<notin> set imageExtensions \<and> ext \<noteq> ''json'' then True else False))"

definition cleanFilename :: "string \<Rightarrow> string" where
  "cleanFilename filename = pop (split (CHR 0x5C) (pop (split CHR ''/'' filename)))"

definition isAlnumLower :: "char \<Rightarrow> bool" where
  "isAlnumLower c = (isLower c \<or> isDigit c)"

definition normalizeFilename :: "string \<Rightarrow> string" where
  "normalizeFilename filename =
     dropWhile (\<lambda>c. c = CHR ''0'') (filter isAlnumLower (toLowerCase filename))"

definition isValidImage :: "nat \<Rightarrow> bool" where
  "isValidImage b = (b > 0 \<and> b < 50 * 1024 * 1024)"

section \<open>FileManager: data\<close>

text \<open>
  The objects pushed on \<open>currentFiles.images\<close> and \<open>currentFiles.translations\<close> have
  the same fields but for the payload (\<open>blob\<close> or \<open>data\<close>), here \<open>content\<close>. A blob
  is represented by its byte size, the only thing the program reads from it. The fields
  \<open>size\<close> and \<open>type\<close> are \<open>fsize\<close> and \<open>ftype\<close> here, and the list
  \<open>currentFiles.translations\<close> is \<open>translationFiles\<close>, since the source's names are
  taken in Isabelle.
\<close>

datatype json =
    JNull
  | JBool bool
  | JNum real
  | JStr string
  | JArr "json list"
  | JObj "(string \<times> json) list"

type_synonym blob = nat

record 'c fileData =
  filename :: string
  content :: 'c
  fsize :: nat
  ftype :: string
  baseName :: string

record page =
  image :: "blob fileData"
  translation :: "json fileData option"
  hasTranslation :: bool
  pageIndex :: nat

text \<open>
  An entry of the decoded archive: its key in \<open>zipData.files\<close>, the directory flag, and
  what \<open>async('blob')\<close> and \<open>async('text')\<close> resolve to (\<open>None\<close> when the read is
  rejected), with the value \<open>JSON.parse\<close> gives for that text (\<open>None\<close> when it throws).
\<close>

record zipEntry =
  entryName :: string
  dir :: bool
  asBlob :: "blob option"
  asText :: "string option"
  parsed :: "json option"

record uploadFile =
  fileName :: string
  fileType :: string
  fileSize :: nat

datatype error =
    AlreadyProcessing
  | NoFileProvided
  | NotZip
  | FileTooLarge
  | EmptyZipFile
  | ZipLoadFailed
  | EmptyArchive
  | NoImagesFound
  | NoImageFiles
  | InvalidImage string
  | ReadFailed
  | TypeError
  | NoPages

record fileManager =
  images :: "blob fileData list"
  translationFiles :: "json fileData list"
  matched :: "page list"
  processing :: bool

definition maxFileSize :: nat where
  "maxFileSize = 100 * 1024 * 1024"

text \<open>The state the constructor builds, and to which \<open>processZipFile\<close> resets the lists.\<close>

definition newFileManager :: fileManager where
  "newFileManager = \<lparr>images = [], translationFiles = [], matched = [], processing = False\<rparr>"

section \<open>Values read from JSON\<close>

text \<open>
  A property read on a parsed JSON value; \<open>None\<close> is \<open>undefined\<close>. Reading a
  property of \<open>null\<close> throws and is handled where it can happen.
\<close>

fun getProp :: "json \<Rightarrow> string \<Rightarrow> json option" where
  "getProp (JObj kvs) k = map_of kvs k"
| "getProp (JArr xs) k = (if k = ''length'' then Some (JNum (real (length xs))) else None)"
| "getProp (JStr s) k = (if k = ''length'' then Some (JNum (real (length s))) else None)"
| "getProp v k = None"

fun truthy :: "json option \<Rightarrow> bool" where
  "truthy None = False"
| "truthy (Some JNull) = False"
| "truthy (Some (JBool b)) = b"
| "truthy (Some (JNum r)) = (r \<noteq> 0)"
| "truthy (Some (JStr s)) = (s \<noteq> [])"
| "truthy (Some (JArr xs)) = True"
| "truthy (Some (JObj kvs)) = True"

fun isArray :: "json option \<Rightarrow> bool" where
  "isArray (Some (JArr xs)) = True"
| "isArray v = False"

fun typeofObject :: "json \<Rightarrow> bool" where
  "typeofObject JNull = True"
| "typeofObject (JArr xs) = True"
| "typeofObject (JObj kvs) = True"
| "typeofObject v = False"

fun elements :: "json option \<Rightarrow> json list" where
  "elements (Some (JArr xs)) = xs"
| "elements v = []"

text \<open>The body of the loop over \<open>data.blocks\<close>: \<open>Inr False\<close> is \<open>return false\<close>.\<close>

definition validBlock :: "json \<Rightarrow> error + bool" where
  "validBlock block =
     (if block = JNull then Inl TypeError
      else if \<not> truthy (getProp block ''box'') \<or> \<not> isArray (getProp block ''box'')
              \<or> length (elements (getProp block ''box'')) \<noteq> 4 then Inr False
      else if \<not> isArray (getProp block ''lines'') then Inr False
      else Inr True)"

fun validBlocks :: "json list \<Rightarrow> error + bool" where
  "validBlocks [] = Inr True"
| "validBlocks (block # blocks) =
     (case validBlock block of
        Inl e \<Rightarrow> Inl e
      | Inr ok \<Rightarrow> if ok then validBlocks blocks else Inr False)"

definition isValidMokuroJSON :: "json \<Rightarrow> error + bool" where
  "isValidMokuroJSON data =
     (if \<not> truthy (Some data) \<or> \<not> typeofObject data then Inr False
      else if \<not> truthy (getProp data ''version'') \<or> \<not> truthy (getProp data ''img_width'')
              \<or> \<not> truthy (getProp data ''img_height'') then Inr False
      else if \<not> isArray (getProp data ''blocks'') then Inr False
      else validBlocks (elements (getProp data ''blocks'')))"

section \<open>FileManager: extraction\<close>

definition processImageFile ::
  "fileManager \<Rightarrow> string \<Rightarrow> zipEntry \<Rightarrow> error + fileManager" where
  "processImageFile st fname zipEntry =
     (case asBlob zipEntry of
        None \<Rightarrow> Inl ReadFailed
      | Some b \<Rightarrow>
          if \<not> isValidImage b then Inl (InvalidImage fname)
          else Inr (st\<lparr>images := images st @
                 [\<lparr>filename = cleanFilename fname, content = b, fsize = b,
                   ftype = ''image'', baseName = getBaseName fname\<rparr>]\<rparr>))"

text \<open>
  The inner \<open>try\<close> of \<open>processJSONFile\<close> catches the parse error and anything the
  validation throws; only a rejected read leaves the function as an exception.
\<close>

definition processJSONFile ::
  "fileManager \<Rightarrow> string \<Rightarrow> zipEntry \<Rightarrow> error + fileManager" where
  "processJSONFile st fname zipEntry =
     (case asText zipEntry of
        None \<Rightarrow> Inl ReadFailed
      | Some textContent \<Rightarrow>
          (case parsed zipEntry of
             None \<Rightarrow> Inr st
           | Some jsonData \<Rightarrow>
               (case isValidMokuroJSON jsonData of
                  Inl e \<Rightarrow> Inr st
                | Inr ok \<Rightarrow>
                    if \<not> ok then Inr st
                    else Inr (st\<lparr>translationFiles := translationFiles st @
                           [\<lparr>filename = cleanFilename fname, content = jsonData,
                             fsize = length textContent, ftype = ''translation'',
                             baseName = getBaseName fname\<rparr>]\<rparr>))))"

text \<open>One entry of the loop of \<open>extractFiles\<close>, with its \<open>try\<close>/\<open>catch\<close>.\<close>

definition extractEntry :: "fileManager \<Rightarrow> zipEntry \<Rightarrow> fileManager" where
  "extractEntry st zipEntry =
     (if dir zipEntry then st
      else if shouldSkipFile (entryName zipEntry) then st
      else (case (if isImage (entryName zipEntry)
                    then processImageFile st (entryName zipEntry) zipEntry
                  else if isJSON (entryName zipEntry)
                    then processJSONFile st (entryName zipEntry) zipEntry
                  else Inr st) of
              Inl e \<Rightarrow> st
            | Inr st' \<Rightarrow> st'))"

fun extractLoop :: "fileManager \<Rightarrow> zipEntry list \<Rightarrow> fileManager" where
  "extractLoop st [] = st"
| "extractLoop st (zipEntry # rest) = extractLoop (extractEntry st zipEntry) rest"

text \<open>A call that may throw: the exception or the value, and the state it leaves.\<close>

type_synonym 'a outcome = "(error + 'a) \<times> fileManager"

definition extractFiles :: "fileManager \<Rightarrow> zipEntry list \<Rightarrow> unit outcome" where
  "extractFiles st files =
     (if length files = 0 then (Inl EmptyArchive, st)
      else (let st' = extractLoop st files in
            if length (images st') = 0 then (Inl NoImagesFound, st')
            else (Inr (), st')))"

section \<open>FileManager: matching\<close>

text \<open>\<open>match.padStart(10, '0')\<close>: a run of ten or more digits is left as it is.\<close>

definition padStart :: "nat \<Rightarrow> char \<Rightarrow> string \<Rightarrow> string" where
  "padStart n c s = replicate (n - length s) c @ s"

text \<open>
  \<open>str.replace(/(\d+)/g, match => match.padStart(10, '0'))\<close>: every maximal run of
  digits is padded.
\<close>

function normalizeDigits :: "string \<Rightarrow> string" where
  "normalizeDigits [] = []"
| "normalizeDigits (c # cs) =
     (if isDigit c
      then padStart 10 CHR ''0'' (c # takeWhile isDigit cs) @ normalizeDigits (dropWhile isDigit cs)
      else c # normalizeDigits cs)"
  by pat_completeness auto
termination
  by (relation "measure length") (auto simp: le_imp_less_Suc length_dropWhile_le)

text \<open>
  \<open>String.prototype.localeCompare\<close> belongs to the platform and depends on its locale;
  it is a parameter of the model: negative, zero or positive.
\<close>

type_synonym collation = "string \<Rightarrow> string \<Rightarrow> int"

definition naturalSort :: "collation \<Rightarrow> string \<Rightarrow> string \<Rightarrow> int" where
  "naturalSort localeCompare a b = localeCompare (normalizeDigits a) (normalizeDigits b)"

text \<open>
  \<open>Array.prototype.sort\<close> with a comparator: for a consistent comparator the result is
  the sorted permutation, and the sort is stable. Modelled as a stable insertion sort.
\<close>

fun insertBy :: "('a \<Rightarrow> 'a \<Rightarrow> int) \<Rightarrow> 'a \<Rightarrow> 'a list \<Rightarrow> 'a list" where
  "insertBy cmp x [] = [x]"
| "insertBy cmp x (y # ys) = (if cmp x y \<le> 0 then x # y # ys else y # insertBy cmp x ys)"

definition sortBy :: "('a \<Rightarrow> 'a \<Rightarrow> int) \<Rightarrow> 'a list \<Rightarrow> 'a list" where
  "sortBy cmp xs = foldr (insertBy cmp) xs []"

definition findMatchingTranslation ::
  "json fileData list \<Rightarrow> blob fileData \<Rightarrow> json fileData option" where
  "findMatchingTranslation trs img =
     (if baseName img = [] then None
      else (case find (\<lambda>trans. baseName trans = baseName img) trs of
              Some exactMatch \<Rightarrow> Some exactMatch
            | None \<Rightarrow>
                find (\<lambda>trans. normalizeFilename (baseName img) = normalizeFilename (baseName trans))
                  trs))"

fun matchLoop :: "json fileData list \<Rightarrow> page list \<Rightarrow> blob fileData list \<Rightarrow> page list" where
  "matchLoop trs acc [] = acc"
| "matchLoop trs acc (img # imgs) =
     matchLoop trs
       (acc @ [\<lparr>image = img, translation = findMatchingTranslation trs img,
                hasTranslation = (findMatchingTranslation trs img \<noteq> None),
                pageIndex = length acc\<rparr>])
       imgs"

definition matchFiles :: "collation \<Rightarrow> fileManager \<Rightarrow> fileManager" where
  "matchFiles localeCompare st =
     (let sorted = sortBy (\<lambda>a b. naturalSort localeCompare (filename a) (filename b)) (images st)
      in st\<lparr>images := sorted, matched := matchLoop (translationFiles st) [] sorted\<rparr>)"

section \<open>FileManager: validation and the whole upload\<close>

text \<open>The statistics of \<open>validateFileStructure\<close> are not read by \<open>processZipFile\<close>;
  only its verdict is modelled.\<close>

definition validateFileStructure :: "fileManager \<Rightarrow> error + unit" where
  "validateFileStructure st =
     (if length (images st) = 0 then Inl NoImageFiles
      else if length (matched st) = 0 then Inl NoPages
      else Inr ())"

text \<open>\<open>validateZipFile\<close> returns nothing; the model hands back the file it accepted.\<close>

definition validateZipFile :: "uploadFile option \<Rightarrow> error + uploadFile" where
  "validateZipFile file =
     (case file of
        None \<Rightarrow> Inl NoFileProvided
      | Some f \<Rightarrow>
          if fileType f \<noteq> ''application/zip'' \<and> \<not> endsWith (toLowerCase (fileName f)) ''.zip''
            then Inl NotZip
          else if fileSize f > maxFileSize then Inl FileTooLarge
          else if fileSize f = 0 then Inl EmptyZipFile
          else Inr f)"

text \<open>
  JavaScript objects whose set of fields matters are kept as lists of named fields.
\<close>

datatype jsval =
    VBool bool
  | VNum int
  | VStr string
  | VImages "blob fileData list"
  | VTranslations "json fileData list"
  | VPages "page list"
  | VObj "(string \<times> jsval) list"

definition resultObject :: "fileManager \<Rightarrow> uploadFile \<Rightarrow> jsval" where
  "resultObject st f =
     VObj [(''success'', VBool True),
           (''images'', VImages (images st)),
           (''translations'', VTranslations (translationFiles st)),
           (''matched'', VPages (matched st)),
           (''stats'', VObj [(''imageCount'', VNum (int (length (images st)))),
                             (''translationCount'', VNum (int (length (translationFiles st)))),
                             (''matchedCount'', VNum (int (length (matched st)))),
                             (''totalSize'', VNum (int (fileSize f)))])]"

text \<open>
  \<open>processZipFile\<close>: \<open>zipData\<close> is what \<open>loadAsync\<close> decodes the file to (\<open>None\<close> when it
  rejects). The \<open>finally\<close> clears the flag on every path inside the \<open>try\<close>.
\<close>

definition processZipFile ::
  "collation \<Rightarrow> fileManager \<Rightarrow> uploadFile option \<Rightarrow> zipEntry list option \<Rightarrow> jsval outcome" where
  "processZipFile localeCompare st file zipData =
     (if processing st then (Inl AlreadyProcessing, st)
      else (let st1 = st\<lparr>images := [], translationFiles := [], matched := [], processing := True\<rparr> in
        case validateZipFile file of
          Inl e \<Rightarrow> (Inl e, st1\<lparr>processing := False\<rparr>)
        | Inr f \<Rightarrow>
            (case zipData of
               None \<Rightarrow> (Inl ZipLoadFailed, st1\<lparr>processing := False\<rparr>)
             | Some files \<Rightarrow>
                 (case extractFiles st1 files of
                    (Inl e, st2) \<Rightarrow> (Inl e, st2\<lparr>processing := False\<rparr>)
                  | (Inr u, st2) \<Rightarrow>
                      (let st3 = matchFiles localeCompare st2 in
                       case validateFileStructure st3 of
                         Inl e \<Rightarrow> (Inl e, st3\<lparr>processing := False\<rparr>)
                       | Inr u \<Rightarrow> (Inr (resultObject st3 f), st3\<lparr>processing := False\<rparr>))))))"

section \<open>Vocabulary of the statements about extraction\<close>

text \<open>
  These abbreviations are not part of the program; the theorems use them to say which
  entries are kept. An entry yields an image when it is a file, is not skipped, has an
  image extension, and its blob is read and valid; \<open>imageRecord\<close> is the record
  then pushed. Likewise for translations. The remaining abbreviations build the entries
  of the examples; \<open>pageDocText\<close> is the JSON text of \<open>pageDoc\<close>.
\<close>

abbreviation acceptedImage :: "zipEntry \<Rightarrow> bool" where
  "acceptedImage e \<equiv>
     (\<not> dir e \<and> \<not> shouldSkipFile (entryName e) \<and> isImage (entryName e)
      \<and> (case asBlob e of None \<Rightarrow> False | Some b \<Rightarrow> isValidImage b))"

abbreviation imageRecord :: "zipEntry \<Rightarrow> blob fileData" where
  "imageRecord e \<equiv>
     \<lparr>filename = cleanFilename (entryName e), content = the (asBlob e),
      fsize = the (asBlob e), ftype = ''image'', baseName = getBaseName (entryName e)\<rparr>"

abbreviation acceptedTranslation :: "zipEntry \<Rightarrow> bool" where
  "acceptedTranslation e \<equiv>
     (\<not> dir e \<and> \<not> shouldSkipFile (entryName e) \<and> \<not> isImage (entryName e)
      \<and> isJSON (entryName e) \<and> asText e \<noteq> None
      \<and> (case parsed e of None \<Rightarrow> False | Some d \<Rightarrow> isValidMokuroJSON d = Inr True))"

abbreviation translationRecord :: "zipEntry \<Rightarrow> json fileData" where
  "translationRecord e \<equiv>
     \<lparr>filename = cleanFilename (entryName e), content = the (parsed e),
      fsize = length (the (asText e)), ftype = ''translation'',
      baseName = getBaseName (entryName e)\<rparr>"

abbreviation imageEntry :: "string \<Rightarrow> nat \<Rightarrow> zipEntry" where
  "imageEntry n b \<equiv> \<lparr>entryName = n, dir = False, asBlob = Some b, asText = None, parsed = None\<rparr>"

abbreviation pageDoc :: json where
  "pageDoc \<equiv> JObj [(''version'', JStr ''1''), (''img_width'', JNum 1),
                    (''img_height'', JNum 1), (''blocks'', JArr [])]"

abbreviation pageDocText :: string where
  "pageDocText \<equiv> ''{\"version\":\"1\",\"img_width\":1,\"img_height\":1,\"blocks\":[]}''"

abbreviation jsonEntry :: "string \<Rightarrow> string \<Rightarrow> json \<Rightarrow> zipEntry" where
  "jsonEntry n txt d \<equiv>
     \<lparr>entryName = n, dir = False, asBlob = None, asText = Some txt, parsed = Some d\<rparr>"


abbreviation specBaseName :: "'c fileData \<Rightarrow> string" where
  "specBaseName r \<equiv> getBaseName (filename r)"



section \<open>StorageManager: reading progress\<close>

text \<open>
  The progress object is kept in the settings store as JSON text under one key;
  \<open>getAllProgress\<close> parses it and \<open>saveProgress\<close> writes it back. The model keeps
  what survives \<open>JSON.stringify\<close> and \<open>JSON.parse\<close>: the object's own properties, a
  map from keys to records. Numbers are exact; the store accepts every write.
\<close>

record progressRecord =
  originalName :: string
  currentPage :: int
  totalPages :: int
  lastRead :: int
  percentage :: int

record progressData =
  pdCurrentPage :: int
  pdTotalPages :: int
  pdLastRead :: int

type_synonym progressObject = "string \<rightharpoonup> progressRecord"

record storageManager =
  progressItem :: "progressObject option"
  currentSeriesCookie :: "string option"

definition getAllProgress :: "storageManager \<Rightarrow> progressObject" where
  "getAllProgress sm = (case progressItem sm of None \<Rightarrow> Map.empty | Some obj \<Rightarrow> obj)"

text \<open>
  \<open>obj[key] = value\<close> on a plain object, for a value that is an object. Every key
  becomes (or updates) an own property, except \<open>__proto__\<close> on an object without an own
  property of that name: the assignment then reaches the accessor inherited from
  \<open>Object.prototype\<close>, which replaces the prototype of \<open>obj\<close> and adds no property, so
  that \<open>JSON.stringify\<close> does not write it.
\<close>

definition assignProperty ::
  "progressObject \<Rightarrow> string \<Rightarrow> progressRecord \<Rightarrow> progressObject" where
  "assignProperty obj key v =
     (if key = ''__proto__'' \<and> obj key = None then obj else obj(key \<mapsto> v))"

text \<open>The property names a plain object inherits from \<open>Object.prototype\<close>.\<close>

definition objectPrototypeKeys :: "string list" where
  "objectPrototypeKeys =
     [''constructor'', ''__proto__'', ''hasOwnProperty'', ''isPrototypeOf'',
      ''propertyIsEnumerable'', ''toLocaleString'', ''toString'', ''valueOf'',
      ''__defineGetter__'', ''__defineSetter__'', ''__lookupGetter__'', ''__lookupSetter__'']"

text \<open>
  What \<open>obj[key] || null\<close> gives: the own record, or the inherited member of
  \<open>Object.prototype\<close> (a function or object, so truthy), or \<open>null\<close>.
\<close>

datatype progressResult = Found progressRecord | Inherited string | Null

definition readProperty :: "progressObject \<Rightarrow> string \<Rightarrow> progressResult" where
  "readProperty obj key =
     (case obj key of
        Some r \<Rightarrow> Found r
      | None \<Rightarrow> if key \<in> set objectPrototypeKeys then Inherited key else Null)"

text \<open>\<open>Math.round\<close>: to the nearest integer, halves upwards.\<close>

definition mathRound :: "real \<Rightarrow> int" where
  "mathRound x = \<lfloor>x + 1 / 2\<rfloor>"

definition setCurrentSeries :: "storageManager \<Rightarrow> string \<Rightarrow> storageManager" where
  "setCurrentSeries sm seriesName =
     (if seriesName = [] then sm else sm\<lparr>currentSeriesCookie := Some seriesName\<rparr>)"

text \<open>
  \<open>saveProgress(seriesName, progressData)\<close>; \<open>now\<close> is the reading of \<open>Date.now()\<close>.
  The page numbers are integers, on which \<open>parseInt\<close> does nothing, and the percentage
  is rounded from the exact quotient, where the code rounds a quotient of doubles.
\<close>

definition saveProgress ::
  "storageManager \<Rightarrow> string \<Rightarrow> progressData option \<Rightarrow> int \<Rightarrow> bool \<times> storageManager" where
  "saveProgress sm seriesName progressData now =
     (case progressData of
        None \<Rightarrow> (False, sm)
      | Some pd \<Rightarrow>
          if seriesName = [] then (False, sm)
          else (let progress = getAllProgress sm;
                    sanitizedName = sanitize seriesName;
                    entry = \<lparr>originalName = seriesName,
                             currentPage = pdCurrentPage pd,
                             totalPages = pdTotalPages pd,
                             lastRead = (if pdLastRead pd = 0 then now else pdLastRead pd),
                             percentage = (if pdTotalPages pd > 0
                                then mathRound (real_of_int (pdCurrentPage pd)
                                       / real_of_int (pdTotalPages pd) * 100)
                                else 0)\<rparr>;
                    sm' = sm\<lparr>progressItem := Some (assignProperty progress sanitizedName entry)\<rparr>
                in (True, setCurrentSeries sm' seriesName)))"

definition getProgress :: "storageManager \<Rightarrow> string \<Rightarrow> progressResult" where
  "getProgress sm seriesName =
     (if seriesName = [] then Null
      else readProperty (getAllProgress sm) (sanitize seriesName))"

section \<open>IndexedDBManager: sessions\<close>

text \<open>Keys of an object: \<open>Object.keys\<close> and a property read.\<close>

fun objectKeys :: "jsval \<Rightarrow> string list" where
  "objectKeys (VObj kvs) = map fst kvs"
| "objectKeys v = []"

fun getField :: "jsval \<Rightarrow> string \<Rightarrow> jsval option" where
  "getField (VObj kvs) k = map_of kvs k"
| "getField v k = None"

text \<open>
  The object store \<open>mangaSeries\<close> has key path \<open>name\<close>: one payload per name.
  \<open>db\<close> is \<open>None\<close> until \<open>init\<close> has run. Transactions are taken to complete.
\<close>

record indexedDBManager =
  db :: "(string \<rightharpoonup> jsval) option"

datatype dbError = NotInitialized

text \<open>
  \<open>storeSeries(name, files)\<close>; \<open>now1\<close> and \<open>now2\<close> are the two readings of
  \<open>Date.now()\<close>, for \<open>uploadDate\<close> and for \<open>expiresAt\<close>.
\<close>

definition seriesData :: "string \<Rightarrow> jsval \<Rightarrow> int \<Rightarrow> int \<Rightarrow> jsval" where
  "seriesData name files now1 now2 =
     VObj [(''name'', VStr name),
           (''files'', files),
           (''uploadDate'', VNum now1),
           (''expiresAt'', VNum (now2 + 24 * 60 * 60 * 1000))]"

definition storeSeries ::
  "indexedDBManager \<Rightarrow> string \<Rightarrow> jsval \<Rightarrow> int \<Rightarrow> int \<Rightarrow> dbError + indexedDBManager" where
  "storeSeries m name files now1 now2 =
     (case db m of
        None \<Rightarrow> Inl NotInitialized
      | Some store \<Rightarrow> Inr (m\<lparr>db := Some (store(name \<mapsto> seriesData name files now1 now2))\<rparr>))"

definition deleteSeries :: "indexedDBManager \<Rightarrow> string \<Rightarrow> dbError + indexedDBManager" where
  "deleteSeries m name =
     (case db m of
        None \<Rightarrow> Inl NotInitialized
      | Some store \<Rightarrow> Inr (m\<lparr>db := Some (store(name := None))\<rparr>))"

text \<open>\<open>result.expiresAt < Date.now()\<close>: false when the field is not a number.\<close>

definition expired :: "jsval \<Rightarrow> int \<Rightarrow> bool" where
  "expired result now =
     (case getField result ''expiresAt'' of Some (VNum e) \<Rightarrow> e < now | _ \<Rightarrow> False)"

text \<open>
  \<open>getSeries(name)\<close> resolves to the payload or to \<open>null\<close> (\<open>None\<close>). On an expired
  entry it starts \<open>deleteSeries\<close> without waiting for it; the model runs the deletion
  to its end.
\<close>

definition getSeries ::
  "indexedDBManager \<Rightarrow> string \<Rightarrow> int \<Rightarrow> (dbError + jsval option) \<times> indexedDBManager" where
  "getSeries m name now =
     (case db m of
        None \<Rightarrow> (Inl NotInitialized, m)
      | Some store \<Rightarrow>
          (case store name of
             None \<Rightarrow> (Inr None, m)
           | Some result \<Rightarrow>
               if expired result now
               then (Inr None, (case deleteSeries m name of Inl e \<Rightarrow> m | Inr m' \<Rightarrow> m'))
               else (Inr (Some result), m)))"

text \<open>
  \<open>startReading\<close> of the upload page, as far as the session store goes: it stores the
  whole result of \<open>processZipFile\<close> (\<open>currentSeriesData\<close>) as \<open>files\<close>, under the
  validated series name. Without series data it shows an error and stores nothing. The
  code catches an error of the store and shows it; the model hands it back as \<open>Inl\<close>.
\<close>

definition startReading ::
  "indexedDBManager \<Rightarrow> jsval option \<Rightarrow> string \<Rightarrow> int \<Rightarrow> int \<Rightarrow> dbError + indexedDBManager" where
  "startReading m currentSeriesData seriesName now1 now2 =
     (case currentSeriesData of
        None \<Rightarrow> Inr m
      | Some result \<Rightarrow> storeSeries m seriesName result now1 now2)"

section \<open>MangaReader: separating overlapping blocks\<close>

text \<open>
  A rendered translation block: the \<open>left\<close> and \<open>top\<close> of its style, in pixels, and the
  size of its bounding rectangle. Blocks are positioned absolutely inside the overlay, so
  the bounding rectangle of a block starts at its style position; rectangles are taken
  relative to the overlay's corner, which changes neither overlaps nor penetration depths.
  Pixels are exact real numbers. An element is named by its index in the list that
  \<open>querySelectorAll\<close> returns.
\<close>

record block =
  styleLeft :: real
  styleTop :: real
  rectWidth :: real
  rectHeight :: real

record domRect =
  rLeft :: real
  rTop :: real
  rRight :: real
  rBottom :: real
  rWidth :: real
  rHeight :: real

definition getBoundingClientRect :: "block \<Rightarrow> domRect" where
  "getBoundingClientRect el =
     \<lparr>rLeft = styleLeft el, rTop = styleTop el,
      rRight = styleLeft el + rectWidth el, rBottom = styleTop el + rectHeight el,
      rWidth = rectWidth el, rHeight = rectHeight el\<rparr>"

definition rectsOverlap :: "domRect \<Rightarrow> domRect \<Rightarrow> bool" where
  "rectsOverlap a b =
     (\<not> (rRight a \<le> rLeft b \<or> rLeft a \<ge> rRight b \<or> rBottom a \<le> rTop b \<or> rTop a \<ge> rBottom b))"

definition margin :: real where
  "margin = 4"

definition nudgeWithinOverlay :: "block \<Rightarrow> real \<Rightarrow> real \<Rightarrow> domRect \<Rightarrow> block" where
  "nudgeWithinOverlay el dx dy overlayRect =
     (let left = styleLeft el + dx;
          top = styleTop el + dy;
          rect = getBoundingClientRect el;
          minLeft = margin;
          minTop = margin;
          maxLeft = rWidth overlayRect - rWidth rect - margin;
          maxTop = rHeight overlayRect - rHeight rect - margin
      in el\<lparr>styleLeft := max minLeft (min maxLeft left),
             styleTop := max minTop (min maxTop top)\<rparr>)"

definition padding :: real where
  "padding = 2"

definition maxPairStep :: real where
  "maxPairStep = 6"

definition maxTotal :: real where
  "maxTotal = 24"

definition maxIterations :: nat where
  "maxIterations = 10"

text \<open>
  The state of the loops of \<open>applySeparation\<close>: the blocks, the local map
  \<open>movedTotals\<close>, the reader's map of original positions, the flag \<open>any\<close> and the
  number of sweeps begun.
\<close>

record sepState =
  sBlocks :: "block list"
  movedTotals :: "nat \<rightharpoonup> real"
  originals :: "nat \<rightharpoonup> real \<times> real"
  anyMoved :: bool
  iter :: nat

text \<open>\<open>movedTotals.get(el) || 0\<close>\<close>

definition movedOf :: "(nat \<rightharpoonup> real) \<Rightarrow> nat \<Rightarrow> real" where
  "movedOf m el = (case m el of None \<Rightarrow> 0 | Some v \<Rightarrow> v)"

definition addMoved :: "(nat \<rightharpoonup> real) \<Rightarrow> nat \<Rightarrow> real \<Rightarrow> real \<Rightarrow> (nat \<rightharpoonup> real)" where
  "addMoved m el dx dy = m(el \<mapsto> movedOf m el + \<bar>dx\<bar> + \<bar>dy\<bar>)"

definition ensureSavedOriginal ::
  "(nat \<rightharpoonup> real \<times> real) \<Rightarrow> block list \<Rightarrow> nat \<Rightarrow> (nat \<rightharpoonup> real \<times> real)" where
  "ensureSavedOriginal orig bs el =
     (if orig el = None then orig(el \<mapsto> (styleLeft (bs ! el), styleTop (bs ! el))) else orig)"

text \<open>The penetration depths of two rectangles and the step computed for a pair.\<close>

definition penX :: "domRect \<Rightarrow> domRect \<Rightarrow> real" where
  "penX ra rb = max 0 (min (rRight ra) (rRight rb) - max (rLeft ra) (rLeft rb))"

definition penY :: "domRect \<Rightarrow> domRect \<Rightarrow> real" where
  "penY ra rb = max 0 (min (rBottom ra) (rBottom rb) - max (rTop ra) (rTop rb))"

definition pairStep :: "domRect \<Rightarrow> domRect \<Rightarrow> real \<Rightarrow> real \<Rightarrow> real" where
  "pairStep ra rb movedA movedB =
     (let needed = min ((if penX ra rb \<le> penY ra rb then penX ra rb else penY ra rb) + padding)
                       maxPairStep;
          step = needed / 2;
          capA = max 0 (maxTotal - movedA);
          capB = max 0 (maxTotal - movedB)
      in min step (min capA capB))"

text \<open>The body of the inner loop for the pair of elements \<open>i < j\<close>.\<close>

definition separatePair :: "domRect \<Rightarrow> sepState \<Rightarrow> nat \<times> nat \<Rightarrow> sepState" where
  "separatePair overlayRect s ij =
     (let i = fst ij; j = snd ij;
          a = sBlocks s ! i;
          b = sBlocks s ! j;
          ra = getBoundingClientRect a;
          rb = getBoundingClientRect b
      in if \<not> rectsOverlap ra rb then s
         else (let step = pairStep ra rb (movedOf (movedTotals s) i) (movedOf (movedTotals s) j)
               in if step \<le> 0 then s
                  else (let orig = ensureSavedOriginal
                                     (ensureSavedOriginal (originals s) (sBlocks s) i) (sBlocks s) j
                        in if penX ra rb \<le> penY ra rb
                           then (let acx = rLeft ra + rWidth ra / 2;
                                     bcx = rLeft rb + rWidth rb / 2;
                                     dir = (if bcx \<ge> acx then 1 else - 1)
                                 in s\<lparr>sBlocks := (sBlocks s)
                                         [i := nudgeWithinOverlay a (- dir * step) 0 overlayRect,
                                          j := nudgeWithinOverlay b (dir * step) 0 overlayRect],
                                       movedTotals := addMoved (addMoved (movedTotals s) i (- dir * step) 0)
                                                        j (dir * step) 0,
                                       originals := orig,
                                       anyMoved := True\<rparr>)
                           else (let acy = rTop ra + rHeight ra / 2;
                                     bcy = rTop rb + rHeight rb / 2;
                                     dir = (if bcy \<ge> acy then 1 else - 1)
                                 in s\<lparr>sBlocks := (sBlocks s)
                                         [i := nudgeWithinOverlay a 0 (- dir * step) overlayRect,
                                          j := nudgeWithinOverlay b 0 (dir * step) overlayRect],
                                       movedTotals := addMoved (addMoved (movedTotals s) i 0 (- dir * step))
                                                        j 0 (dir * step),
                                       originals := orig,
                                       anyMoved := True\<rparr>))))"

text \<open>The pairs \<open>i < j < n\<close> in the order of the two nested \<open>for\<close> loops.\<close>

definition sweepPairs :: "nat \<Rightarrow> (nat \<times> nat) list" where
  "sweepPairs n = concat (map (\<lambda>i. map (\<lambda>j. (i, j)) [Suc i..<n]) [0..<n])"

definition sweep :: "domRect \<Rightarrow> sepState \<Rightarrow> sepState" where
  "sweep overlayRect s = foldl (separatePair overlayRect) s (sweepPairs (length (sBlocks s)))"

text \<open>The outer loop, with the number of iterations still allowed.\<close>

fun sweeps :: "nat \<Rightarrow> domRect \<Rightarrow> sepState \<Rightarrow> sepState" where
  "sweeps 0 overlayRect s = s"
| "sweeps (Suc k) overlayRect s =
     (let s' = sweep overlayRect (s\<lparr>anyMoved := False, iter := Suc (iter s)\<rparr>)
      in if \<not> anyMoved s' then s' else sweeps k overlayRect s')"

definition separationRun ::
  "domRect \<Rightarrow> block list \<Rightarrow> (nat \<rightharpoonup> real \<times> real) \<Rightarrow> sepState" where
  "separationRun overlayRect bs orig =
     sweeps maxIterations overlayRect
       \<lparr>sBlocks = bs, movedTotals = Map.empty, originals = orig, anyMoved = False, iter = 0\<rparr>"

text \<open>
  The reader, as far as separation goes: the overlay's rectangle (\<open>None\<close> when there is
  no overlay element), the rendered blocks, the toggle and the saved positions.
\<close>

record mangaReader =
  translationOverlay :: "domRect option"
  blocks :: "block list"
  separationEnabled :: bool
  originalPositions :: "nat \<rightharpoonup> real \<times> real"

definition applySeparation :: "mangaReader \<Rightarrow> mangaReader" where
  "applySeparation r =
     (case translationOverlay r of
        None \<Rightarrow> r
      | Some overlayRect \<Rightarrow>
          if length (blocks r) = 0 then r
          else (let s = separationRun overlayRect (blocks r) (originalPositions r)
                in r\<lparr>blocks := sBlocks s, originalPositions := originals s\<rparr>))"

text \<open>
  \<open>restoreOriginalPositions\<close>: every element with a saved position gets it back, then
  the map is cleared.
\<close>

definition restoreBlock :: "(nat \<rightharpoonup> real \<times> real) \<Rightarrow> nat \<Rightarrow> block \<Rightarrow> block" where
  "restoreBlock orig el b =
     (case orig el of
        None \<Rightarrow> b
      | Some pos \<Rightarrow> b\<lparr>styleLeft := fst pos, styleTop := snd pos\<rparr>)"

definition restoreOriginalPositions :: "mangaReader \<Rightarrow> mangaReader" where
  "restoreOriginalPositions r =
     r\<lparr>blocks := map (\<lambda>el. restoreBlock (originalPositions r) el (blocks r ! el))
                   [0..<length (blocks r)],
       originalPositions := Map.empty\<rparr>"

definition toggleSeparation :: "mangaReader \<Rightarrow> mangaReader" where
  "toggleSeparation r =
     (let r' = r\<lparr>separationEnabled := \<not> separationEnabled r\<rparr>
      in if separationEnabled r' then applySeparation r' else restoreOriginalPositions r')"


definition withinBudget :: "domRect \<Rightarrow> block list \<Rightarrow> sepState \<Rightarrow> bool" where
  "withinBudget overlayRect B s \<longleftrightarrow>
     length (sBlocks s) = length B
     \<and> (\<forall>el. 0 \<le> movedOf (movedTotals s) el \<and> movedOf (movedTotals s) el \<le> maxTotal)
     \<and> (\<forall>el < length B.
          rectWidth (sBlocks s ! el) = rectWidth (B ! el)
          \<and> rectHeight (sBlocks s ! el) = rectHeight (B ! el))
     \<and> (\<forall>el < length B.
          nudgeWithinOverlay (B ! el) 0 0 overlayRect = B ! el \<longrightarrow>
            nudgeWithinOverlay (sBlocks s ! el) 0 0 overlayRect = sBlocks s ! el
            \<and> \<bar>styleLeft (sBlocks s ! el) - styleLeft (B ! el)\<bar>
                + \<bar>styleTop (sBlocks s ! el) - styleTop (B ! el)\<bar>
                \<le> movedOf (movedTotals s) el)"

section \<open>A collation for the examples\<close>

text \<open>
  The examples need one concrete collation. \<open>codeUnitCompare\<close> orders strings by their
  first differing character code, a proper prefix first. On file names that differ only
  in digits it agrees with every locale's \<open>localeCompare\<close>, which orders \<open>0\<close> to \<open>9\<close>
  in this way.
\<close>

fun compareCodes :: "nat list \<Rightarrow> nat list \<Rightarrow> int" where
  "compareCodes [] [] = 0"
| "compareCodes [] (y # ys) = - 1"
| "compareCodes (x # xs) [] = 1"
| "compareCodes (x # xs) (y # ys) =
     (if x < y then - 1 else if y < x then 1 else compareCodes xs ys)"

definition codeUnitCompare :: collation where
  "codeUnitCompare a b = compareCodes (map of_char a) (map of_char b)"

text \<open>The upload, the overlay and the blocks of the examples.\<close>

abbreviation exampleFile :: uploadFile where
  "exampleFile \<equiv> \<lparr>fileName = ''manga.zip'', fileType = ''application/zip'', fileSize = 2048\<rparr>"

abbreviation imageNamed :: "string \<Rightarrow> string \<Rightarrow> blob fileData" where
  "imageNamed n b \<equiv> \<lparr>filename = n, content = 10, fsize = 10, ftype = ''image'', baseName = b\<rparr>"

abbreviation examplePage :: page where
  "examplePage \<equiv> \<lparr>image = imageNamed ''p1.jpg'' ''p1'', translation = None,
                    hasTranslation = False, pageIndex = 0\<rparr>"

abbreviation exampleResult :: jsval where
  "exampleResult \<equiv>
     VObj [(''success'', VBool True),
           (''images'', VImages [imageNamed ''p1.jpg'' ''p1'']),
           (''translations'', VTranslations []),
           (''matched'', VPages [examplePage]),
           (''stats'', VObj [(''imageCount'', VNum 1), (''translationCount'', VNum 0),
                             (''matchedCount'', VNum 1), (''totalSize'', VNum 2048)])]"

abbreviation overlay500 :: domRect where
  "overlay500 \<equiv> \<lparr>rLeft = 0, rTop = 0, rRight = 500, rBottom = 500, rWidth = 500, rHeight = 500\<rparr>"

abbreviation blockAt :: "real \<Rightarrow> real \<Rightarrow> real \<Rightarrow> real \<Rightarrow> block" where
  "blockAt l t w h \<equiv> \<lparr>styleLeft = l, styleTop = t, rectWidth = w, rectHeight = h\<rparr>"

abbreviation readerWith :: "block list \<Rightarrow> mangaReader" where
  "readerWith bs \<equiv> \<lparr>translationOverlay = Some overlay500, blocks = bs,
                      separationEnabled = False, originalPositions = Map.empty\<rparr>"


text \<open>The number that a string of decimal digits denotes.\<close>

fun digitsValue :: "string \<Rightarrow> nat" where
  "digitsValue [] = 0"
| "digitsValue (c # cs) = ((of_char c :: nat) - 48) * 10 ^ length cs + digitsValue cs"

section \<open>Sorting and the page loop\<close>

lemma length_insertBy: "length (insertBy cmp x xs) = Suc (length xs)"
  by (induction xs) auto

lemma mset_insertBy: "mset (insertBy cmp x xs) = add_mset x (mset xs)"
  by (induction xs) auto

lemma mset_sortBy: "mset (sortBy cmp xs) = mset xs"
  by (induction xs) (auto simp: sortBy_def mset_insertBy)

lemma length_sortBy: "length (sortBy cmp xs) = length xs"
  using mset_sortBy [of cmp xs] by (metis size_mset)

lemma set_insertBy: "set (insertBy cmp x xs) = insert x (set xs)"
  by (induction xs) auto

lemma sorted_insertBy:
  assumes total: "\<forall>a b. cmp a b \<le> 0 \<or> cmp b a \<le> 0"
    and trans: "\<forall>a b c. cmp a b \<le> 0 \<longrightarrow> cmp b c \<le> 0 \<longrightarrow> cmp a c \<le> 0"
    and "sorted_wrt (\<lambda>a b. cmp a b \<le> 0) xs"
  shows "sorted_wrt (\<lambda>a b. cmp a b \<le> 0) (insertBy cmp x xs)"
  using assms(3)
proof (induction xs)
  case Nil
  show ?case by simp
next
  case (Cons y ys)
  show ?case
  proof (cases "cmp x y \<le> 0")
    case True
    with Cons.prems trans show ?thesis by auto
  next
    case False
    with total have "cmp y x \<le> 0" by blast
    with False Cons show ?thesis by (auto simp: set_insertBy)
  qed
qed

lemma sorted_sortBy:
  assumes "\<forall>a b. cmp a b \<le> 0 \<or> cmp b a \<le> 0"
    and "\<forall>a b c. cmp a b \<le> 0 \<longrightarrow> cmp b c \<le> 0 \<longrightarrow> cmp a c \<le> 0"
  shows "sorted_wrt (\<lambda>a b. cmp a b \<le> 0) (sortBy cmp xs)"
proof (induction xs)
  case Nil
  show ?case by (simp add: sortBy_def)
next
  case (Cons x xs)
  have "sortBy cmp (x # xs) = insertBy cmp x (sortBy cmp xs)" by (simp add: sortBy_def)
  with sorted_insertBy [OF assms Cons] show ?case by simp
qed

lemma matchLoop_image: "map image (matchLoop trs acc imgs) = map image acc @ imgs"
  by (induction imgs arbitrary: acc) auto

lemma matchLoop_pageIndex:
  "map pageIndex acc = [0..<length acc] \<Longrightarrow>
   map pageIndex (matchLoop trs acc imgs) = [0..<length acc + length imgs]"
proof (induction imgs arbitrary: acc)
  case Nil
  then show ?case by simp
next
  case (Cons img imgs)
  let ?acc = "acc @ [\<lparr>image = img, translation = findMatchingTranslation trs img,
                hasTranslation = (findMatchingTranslation trs img \<noteq> None),
                pageIndex = length acc\<rparr>]"
  from Cons.prems have "map pageIndex ?acc = [0..<length ?acc]" by simp
  from Cons.IH [OF this] show ?case by simp
qed

lemma set_sortBy: "set (sortBy cmp xs) = set xs"
  using mset_sortBy [of cmp xs] by (metis set_mset_mset)

section \<open>Extraction and matching: properties\<close>

lemma endsWith_full:
  assumes "endsWith s p" and "length s \<le> length p"
  shows "s = p"
proof -
  from assms(1) have le: "length p \<le> length s" and d: "drop (length s - length p) s = p"
    unfolding endsWith_def by blast+
  from le assms(2) have "length s - length p = 0" by arith
  with d show ?thesis by (metis drop0)
qed

lemma getBaseName_empty:
  assumes "getBaseName n = []"
  shows "n = [] \<or> toLowerCase n \<in> set mediaSuffixes"
proof (cases "filter (endsWith (toLowerCase n)) mediaSuffixes")
  case Nil
  with assms show ?thesis by (simp add: getBaseName_def)
next
  case (Cons suf rest)
  then have "suf \<in> set (filter (endsWith (toLowerCase n)) mediaSuffixes)" by simp
  then have mem: "suf \<in> set mediaSuffixes" and e: "endsWith (toLowerCase n) suf" by auto
  from assms Cons have "take (length n - length suf) n = []" by (simp add: getBaseName_def)
  then have "length n \<le> length suf \<or> n = []" by auto
  then show ?thesis
  proof
    assume "length n \<le> length suf"
    then have "length (toLowerCase n) \<le> length suf" by (simp add: toLowerCase_def)
    with e have "toLowerCase n = suf" by (rule endsWith_full)
    with mem show ?thesis by simp
  qed simp
qed

lemma shouldSkip_empty: "shouldSkipFile []"
  by code_simp

lemma shouldSkip_suffix: "toLowerCase n \<in> set mediaSuffixes \<Longrightarrow> shouldSkipFile n"
  by (auto simp: shouldSkipFile_def mediaSuffixes_def startsWith_def Let_def)

lemma getBaseName_nonempty: "\<not> shouldSkipFile n \<Longrightarrow> getBaseName n \<noteq> []"
  using getBaseName_empty shouldSkip_empty shouldSkip_suffix by blast

lemma images_extractEntry:
  "images (extractEntry st e) = images st @ map imageRecord (filter acceptedImage [e])"
  by (simp add: extractEntry_def processImageFile_def processJSONFile_def
      split: option.splits sum.splits)

lemma images_extractLoop:
  "images (extractLoop st files) = images st @ map imageRecord (filter acceptedImage files)"
proof (induction files arbitrary: st)
  case Nil
  show ?case by simp
next
  case (Cons e es)
  have "images (extractLoop st (e # es))
          = images (extractEntry st e) @ map imageRecord (filter acceptedImage es)"
    using Cons.IH [of "extractEntry st e"] by simp
  also have "\<dots> = (images st @ map imageRecord (filter acceptedImage [e]))
                     @ map imageRecord (filter acceptedImage es)"
    by (simp only: images_extractEntry)
  also have "\<dots> = images st @ map imageRecord (filter acceptedImage ([e] @ es))"
    by (simp only: filter_append map_append append_assoc)
  finally show ?case by simp
qed

lemma extracted_baseName_nonempty:
  assumes "extractFiles newFileManager files = (Inr (), st)" and "img \<in> set (images st)"
  shows "baseName img \<noteq> []"
proof -
  from assms(1) have "st = extractLoop newFileManager files"
    by (auto simp: extractFiles_def Let_def split: if_splits)
  then have "images st = map imageRecord (filter acceptedImage files)"
    by (simp add: images_extractLoop newFileManager_def)
  with assms(2) obtain e where e: "\<not> shouldSkipFile (entryName e)"
    and i: "img = imageRecord e" by auto
  from e have "getBaseName (entryName e) \<noteq> []" by (rule getBaseName_nonempty)
  with i show ?thesis by simp
qed

lemma translationFiles_extractEntry:
  "translationFiles (extractEntry st e)
     = translationFiles st @ map translationRecord (filter acceptedTranslation [e])"
  by (simp add: extractEntry_def processImageFile_def processJSONFile_def
      split: option.splits sum.splits)

lemma translationFiles_extractLoop:
  "translationFiles (extractLoop st files)
     = translationFiles st @ map translationRecord (filter acceptedTranslation files)"
proof (induction files arbitrary: st)
  case Nil
  show ?case by simp
next
  case (Cons e es)
  have "translationFiles (extractLoop st (e # es))
          = translationFiles (extractEntry st e) @ map translationRecord (filter acceptedTranslation es)"
    using Cons.IH [of "extractEntry st e"] by simp
  also have "\<dots> = (translationFiles st @ map translationRecord (filter acceptedTranslation [e]))
                     @ map translationRecord (filter acceptedTranslation es)"
    by (simp only: translationFiles_extractEntry)
  also have "\<dots> = translationFiles st @ map translationRecord (filter acceptedTranslation ([e] @ es))"
    by (simp only: filter_append map_append append_assoc)
  finally show ?case by simp
qed







lemmas string_eval = toLowerCase_def lowerChar_def isUpper_def isLower_def isDigit_def
  char_of_def bit_iff_odd startsWith_def endsWith_def pop_def imageExtensions_def
  mediaSuffixes_def



text \<open>
  Claim C2. The claim asks that the entry \<open>vol1/page_01.jpg\<close> be recorded with the
  base name \<open>page_01\<close>. \<open>processImageFile\<close> passes the entry name with its
  directories to \<open>getBaseName\<close>, which removes the extension only: the recorded base
  name is \<open>vol1/page_01\<close>, while the \<open>filename\<close> field of the same record has the
  path stripped.
\<close>

theorem processImageFile_baseName_keeps_path:
  "map baseName (images (snd (extractFiles newFileManager [imageEntry ''vol1/page_01.jpg'' 10])))
     = [''vol1/page_01'']
   \<and> map filename (images (snd (extractFiles newFileManager [imageEntry ''vol1/page_01.jpg'' 10])))
     = [''page_01.jpg'']"
  by (simp add: extractFiles_def extractEntry_def processImageFile_def newFileManager_def
      shouldSkipFile_def isImage_def isValidImage_def cleanFilename_def getBaseName_def
      string_eval)

lemma find_first:
  assumes "\<exists>x \<in> set xs. P x"
  shows "\<exists>i < length xs. find P xs = Some (xs ! i) \<and> P (xs ! i) \<and> (\<forall>j < i. \<not> P (xs ! j))"
proof -
  from assms have "find P xs \<noteq> None" by (auto simp: find_None_iff)
  then obtain y where "find P xs = Some y" by blast
  then show ?thesis unfolding find_Some_iff by blast
qed

lemma split_without_separator: "c \<notin> set s \<Longrightarrow> split c s = [s]"
  by (induction s) auto

lemma cleanFilename_flat:
  assumes "CHR ''/'' \<notin> set n" and "CHR 0x5C \<notin> set n"
  shows "cleanFilename n = n"
  using assms by (simp add: cleanFilename_def pop_def split_without_separator)

lemma matchLoop_pages:
  assumes "p \<in> set (matchLoop trs acc imgs)"
  shows "p \<in> set acc
       \<or> (image p \<in> set imgs \<and> translation p = findMatchingTranslation trs (image p)
           \<and> hasTranslation p = (translation p \<noteq> None))"
  using assms
proof (induction imgs arbitrary: acc)
  case Nil
  then show ?case by simp
next
  case (Cons img imgs)
  let ?pg = "\<lparr>image = img, translation = findMatchingTranslation trs img,
              hasTranslation = (findMatchingTranslation trs img \<noteq> None),
              pageIndex = length acc\<rparr>"
  from Cons.prems have "p \<in> set (matchLoop trs (acc @ [?pg]) imgs)" by simp
  from Cons.IH [OF this] show ?case by auto
qed

lemma matchFiles_page:
  assumes "p \<in> set (matched (matchFiles cmp st))"
  shows "image p \<in> set (images st)"
    and "translation p = findMatchingTranslation (translationFiles st) (image p)"
    and "hasTranslation p = (translation p \<noteq> None)"
proof -
  from assms have "p \<in> set (matchLoop (translationFiles st) []
      (sortBy (\<lambda>a b. naturalSort cmp (filename a) (filename b)) (images st)))"
    by (simp add: matchFiles_def Let_def)
  from matchLoop_pages [OF this]
  show "image p \<in> set (images st)"
    and "translation p = findMatchingTranslation (translationFiles st) (image p)"
    and "hasTranslation p = (translation p \<noteq> None)"
    by (simp_all add: set_sortBy)
qed

lemma recorded_baseName:
  assumes flat: "\<forall>e \<in> set files. CHR ''/'' \<notin> set (entryName e) \<and> CHR 0x5C \<notin> set (entryName e)"
    and ex: "extractFiles newFileManager files = (Inr (), st)"
  shows "\<forall>r \<in> set (images st). baseName r = specBaseName r"
    and "\<forall>r \<in> set (translationFiles st). baseName r = specBaseName r"
proof -
  from ex have st: "st = extractLoop newFileManager files"
    by (auto simp: extractFiles_def Let_def split: if_splits)
  have i: "images st = map imageRecord (filter acceptedImage files)"
    unfolding st by (simp add: images_extractLoop newFileManager_def)
  have t: "translationFiles st = map translationRecord (filter acceptedTranslation files)"
    unfolding st by (simp add: translationFiles_extractLoop newFileManager_def)
  show "\<forall>r \<in> set (images st). baseName r = specBaseName r"
  proof
    fix r assume "r \<in> set (images st)"
    with i obtain e where e: "e \<in> set files" and r: "r = imageRecord e" by auto
    from flat e have "cleanFilename (entryName e) = entryName e"
      by (simp add: cleanFilename_flat)
    with r show "baseName r = specBaseName r" by simp
  qed
  show "\<forall>r \<in> set (translationFiles st). baseName r = specBaseName r"
  proof
    fix r assume "r \<in> set (translationFiles st)"
    with t obtain e where e: "e \<in> set files" and r: "r = translationRecord e" by auto
    from flat e have "cleanFilename (entryName e) = entryName e"
      by (simp add: cleanFilename_flat)
    with r show "baseName r = specBaseName r" by simp
  qed
qed

lemma normalizeFilename_eq:
  "normalizeFilename s =
     dropWhile (\<lambda>c. c = CHR ''0'')
       (filter (\<lambda>c. (97 \<le> (of_char c :: nat) \<and> (of_char c :: nat) \<le> 122)
                   \<or> (48 \<le> (of_char c :: nat) \<and> (of_char c :: nat) \<le> 57))
          (map (\<lambda>c. if 65 \<le> (of_char c :: nat) \<and> (of_char c :: nat) \<le> 90
                     then char_of ((of_char c :: nat) + 32) else c) s))"
proof -
  have 1: "isAlnumLower = (\<lambda>c. (97 \<le> (of_char c :: nat) \<and> (of_char c :: nat) \<le> 122)
                   \<or> (48 \<le> (of_char c :: nat) \<and> (of_char c :: nat) \<le> 57))"
    by (rule ext) (simp add: isAlnumLower_def isLower_def isDigit_def)
  have 2: "lowerChar = (\<lambda>c. if 65 \<le> (of_char c :: nat) \<and> (of_char c :: nat) \<le> 90
                     then char_of ((of_char c :: nat) + 32) else c)"
    by (rule ext) (simp add: lowerChar_def isUpper_def)
  show ?thesis by (simp only: normalizeFilename_def toLowerCase_def 1 2)
qed

text \<open>
  The matching policy where the recorded base name is the base name of the
  specification. Take an archive whose entry names have no directory part and a page
  that \<open>matchFiles\<close> builds from its extraction. The page's image is one of the
  extracted images and \<open>hasTranslation\<close> says whether the page has a translation. If
  some translation has the image's base name, the page carries the first such
  translation; if none has, but some translation has the same normalised base name, it
  carries the first of those; otherwise it has none. Normalising lower-cases the letters
  \<open>A\<close> to \<open>Z\<close> (codes 65 to 90), keeps only \<open>a\<close> to \<open>z\<close> and \<open>0\<close> to \<open>9\<close>
  (codes 97 to 122 and 48 to 57), and then drops the zeros at the start of what is left;
  zeros further in stay.
\<close>

lemma matchFiles_translation_policy:
  assumes flat: "\<forall>e \<in> set files. CHR ''/'' \<notin> set (entryName e) \<and> CHR 0x5C \<notin> set (entryName e)"
    and ex: "extractFiles newFileManager files = (Inr (), st)"
    and p: "p \<in> set (matched (matchFiles localeCompare st))"
  shows "image p \<in> set (images st)
       \<and> (hasTranslation p \<longleftrightarrow> translation p \<noteq> None)
       \<and> ((\<exists>t \<in> set (translationFiles st). specBaseName t = specBaseName (image p)) \<longrightarrow>
           (\<exists>i < length (translationFiles st).
              translation p = Some (translationFiles st ! i)
              \<and> specBaseName (translationFiles st ! i) = specBaseName (image p)
              \<and> (\<forall>j < i. specBaseName (translationFiles st ! j) \<noteq> specBaseName (image p))))
       \<and> ((\<forall>t \<in> set (translationFiles st). specBaseName t \<noteq> specBaseName (image p)) \<longrightarrow>
           (\<exists>t \<in> set (translationFiles st).
              normalizeFilename (specBaseName t) = normalizeFilename (specBaseName (image p))) \<longrightarrow>
           (\<exists>i < length (translationFiles st).
              translation p = Some (translationFiles st ! i)
              \<and> normalizeFilename (specBaseName (translationFiles st ! i))
                    = normalizeFilename (specBaseName (image p))
              \<and> (\<forall>j < i. normalizeFilename (specBaseName (translationFiles st ! j))
                    \<noteq> normalizeFilename (specBaseName (image p)))))
       \<and> ((\<forall>t \<in> set (translationFiles st). specBaseName t \<noteq> specBaseName (image p)
              \<and> normalizeFilename (specBaseName t) \<noteq> normalizeFilename (specBaseName (image p))) \<longrightarrow>
           translation p = None)
       \<and> (\<forall>s. normalizeFilename s =
             dropWhile (\<lambda>c. c = CHR ''0'')
               (filter (\<lambda>c. (97 \<le> (of_char c :: nat) \<and> (of_char c :: nat) \<le> 122)
                           \<or> (48 \<le> (of_char c :: nat) \<and> (of_char c :: nat) \<le> 57))
                  (map (\<lambda>c. if 65 \<le> (of_char c :: nat) \<and> (of_char c :: nat) \<le> 90
                             then char_of ((of_char c :: nat) + 32) else c) s)))"
proof -
  let ?trs = "translationFiles st"
  let ?img = "image p"
  let ?E = "\<lambda>trans. specBaseName trans = specBaseName ?img"
  let ?F = "\<lambda>trans. normalizeFilename (specBaseName ?img) = normalizeFilename (specBaseName trans)"
  note pg = matchFiles_page [OF p]
  note rb = recorded_baseName [OF flat ex]
  from pg(1) rb(1) have bi: "baseName ?img = specBaseName ?img" by blast
  have ne: "baseName ?img \<noteq> []" using ex pg(1) by (rule extracted_baseName_nonempty)
  have fe: "find (\<lambda>trans. baseName trans = baseName ?img) ?trs = find ?E ?trs"
    by (rule find_cong) (use rb(2) bi in auto)
  have ff: "find (\<lambda>trans. normalizeFilename (baseName ?img) = normalizeFilename (baseName trans)) ?trs
      = find ?F ?trs"
    by (rule find_cong) (use rb(2) bi in auto)
  have "translation p =
      (case find (\<lambda>trans. baseName trans = baseName ?img) ?trs of
         Some t \<Rightarrow> Some t
       | None \<Rightarrow> find (\<lambda>trans. normalizeFilename (baseName ?img)
                                = normalizeFilename (baseName trans)) ?trs)"
    using pg(2) ne by (simp add: findMatchingTranslation_def)
  then have tr: "translation p = (case find ?E ?trs of Some t \<Rightarrow> Some t | None \<Rightarrow> find ?F ?trs)"
    unfolding fe ff .
  have exact: "\<exists>i < length ?trs. translation p = Some (?trs ! i)
        \<and> specBaseName (?trs ! i) = specBaseName ?img
        \<and> (\<forall>j < i. specBaseName (?trs ! j) \<noteq> specBaseName ?img)"
    if "\<exists>t \<in> set ?trs. specBaseName t = specBaseName ?img"
  proof -
    from find_first [of ?trs ?E] that obtain i where i: "i < length ?trs"
      "find ?E ?trs = Some (?trs ! i)" "?E (?trs ! i)" "\<forall>j < i. \<not> ?E (?trs ! j)" by blast
    from i(2) have "translation p = Some (?trs ! i)" by (simp add: tr)
    with i show ?thesis by blast
  qed
  have noexact: "translation p = find ?F ?trs"
    if "\<forall>t \<in> set ?trs. specBaseName t \<noteq> specBaseName ?img"
  proof -
    from that have "find ?E ?trs = None" by (simp add: find_None_iff)
    then show ?thesis by (simp add: tr)
  qed
  have fuzzy: "\<exists>i < length ?trs. translation p = Some (?trs ! i)
        \<and> normalizeFilename (specBaseName (?trs ! i)) = normalizeFilename (specBaseName ?img)
        \<and> (\<forall>j < i. normalizeFilename (specBaseName (?trs ! j))
              \<noteq> normalizeFilename (specBaseName ?img))"
    if a: "\<forall>t \<in> set ?trs. specBaseName t \<noteq> specBaseName ?img"
      and b: "\<exists>t \<in> set ?trs. normalizeFilename (specBaseName t)
                = normalizeFilename (specBaseName ?img)"
  proof -
    from b have "\<exists>t \<in> set ?trs. ?F t" by metis
    from find_first [of ?trs ?F, OF this] obtain i where i: "i < length ?trs"
      "find ?F ?trs = Some (?trs ! i)" "?F (?trs ! i)" "\<forall>j < i. \<not> ?F (?trs ! j)" by blast
    from i(2) noexact [OF a] have "translation p = Some (?trs ! i)" by simp
    moreover from i(3) have "normalizeFilename (specBaseName (?trs ! i))
        = normalizeFilename (specBaseName ?img)" by simp
    moreover from i(4) have "\<forall>j < i. normalizeFilename (specBaseName (?trs ! j))
        \<noteq> normalizeFilename (specBaseName ?img)" by metis
    ultimately show ?thesis using i(1) by blast
  qed
  have none: "translation p = None"
    if c: "\<forall>t \<in> set ?trs. specBaseName t \<noteq> specBaseName ?img
              \<and> normalizeFilename (specBaseName t) \<noteq> normalizeFilename (specBaseName ?img)"
  proof -
    from c have a: "\<forall>t \<in> set ?trs. specBaseName t \<noteq> specBaseName ?img" by blast
    from c have "\<forall>t \<in> set ?trs. \<not> ?F t" by metis
    then have "find ?F ?trs = None" by (simp add: find_None_iff)
    with noexact [OF a] show ?thesis by simp
  qed
  from pg(1) pg(3) exact fuzzy none normalizeFilename_eq show ?thesis by blast
qed

lemmas pipeline_eval = extractFiles_def extractEntry_def processImageFile_def processJSONFile_def
  newFileManager_def shouldSkipFile_def isImage_def isJSON_def isValidImage_def
  isValidMokuroJSON_def cleanFilename_def getBaseName_def matchFiles_def sortBy_def
  naturalSort_def padStart_def codeUnitCompare_def findMatchingTranslation_def
  normalizeFilename_def isAlnumLower_def Let_def

text \<open>
  The image \<open>Page_05.png\<close> and the translation \<open>page-05.json\<close>: no exact match, both
  base names normalise to \<open>page05\<close>, and the page carries the translation. The name
  \<open>page_5\<close> normalises to \<open>page5\<close>, and \<open>007_X\<close> to \<open>7x\<close>.
\<close>

lemma matchFiles_translation_policy_example:
  "extractFiles newFileManager
       [imageEntry ''Page_05.png'' 10, jsonEntry ''page-05.json'' pageDocText pageDoc]
     = (Inr (),
        \<lparr>images = [imageNamed ''Page_05.png'' ''Page_05''],
         translationFiles = [\<lparr>filename = ''page-05.json'', content = pageDoc, fsize = 56,
                     ftype = ''translation'', baseName = ''page-05''\<rparr>],
         matched = [], processing = False\<rparr>)
   \<and> matched (matchFiles codeUnitCompare
         \<lparr>images = [imageNamed ''Page_05.png'' ''Page_05''],
          translationFiles = [\<lparr>filename = ''page-05.json'', content = pageDoc, fsize = 56,
                     ftype = ''translation'', baseName = ''page-05''\<rparr>],
          matched = [], processing = False\<rparr>)
     = [\<lparr>image = imageNamed ''Page_05.png'' ''Page_05'',
         translation = Some \<lparr>filename = ''page-05.json'', content = pageDoc, fsize = 56,
                     ftype = ''translation'', baseName = ''page-05''\<rparr>,
         hasTranslation = True, pageIndex = 0\<rparr>]
   \<and> normalizeFilename ''Page_05'' = ''page05''
   \<and> normalizeFilename ''page-05'' = ''page05''
   \<and> normalizeFilename ''page_5'' = ''page5''
   \<and> normalizeFilename ''007_X'' = ''7x''"
proof -
  let ?files = "[imageEntry ''Page_05.png'' 10, jsonEntry ''page-05.json'' pageDocText pageDoc]"
  let ?tr = "\<lparr>filename = ''page-05.json'', content = pageDoc, fsize = 56,
                     ftype = ''translation'', baseName = ''page-05''\<rparr>"
  let ?st = "\<lparr>images = [imageNamed ''Page_05.png'' ''Page_05''],
         translationFiles = [?tr], matched = [], processing = False\<rparr>"
  let ?p = "\<lparr>image = imageNamed ''Page_05.png'' ''Page_05'', translation = Some ?tr,
         hasTranslation = True, pageIndex = 0\<rparr>"
  have flat: "\<forall>e \<in> set ?files. CHR ''/'' \<notin> set (entryName e) \<and> CHR 0x5C \<notin> set (entryName e)"
    by simp
  have ex: "extractFiles newFileManager ?files = (Inr (), ?st)"
    by (simp add: pipeline_eval string_eval)
  have m: "matched (matchFiles codeUnitCompare ?st) = [?p]"
    by (simp add: pipeline_eval string_eval)
  then have p: "?p \<in> set (matched (matchFiles codeUnitCompare ?st))" by simp
  note t = matchFiles_translation_policy [OF flat ex p]
  have pin: "\<And>s. normalizeFilename s =
             dropWhile (\<lambda>c. c = CHR ''0'')
               (filter (\<lambda>c. (97 \<le> (of_char c :: nat) \<and> (of_char c :: nat) \<le> 122)
                           \<or> (48 \<le> (of_char c :: nat) \<and> (of_char c :: nat) \<le> 57))
                  (map (\<lambda>c. if 65 \<le> (of_char c :: nat) \<and> (of_char c :: nat) \<le> 90
                             then char_of ((of_char c :: nat) + 32) else c) s))"
    using t by blast
  have n: "normalizeFilename ''Page_05'' = ''page05''" "normalizeFilename ''page-05'' = ''page05''"
    "normalizeFilename ''page_5'' = ''page5''" "normalizeFilename ''007_X'' = ''7x''"
    by (simp_all add: pin char_of_def bit_iff_odd)
  from ex m n show ?thesis by simp
qed

text \<open>
  Claim C3. The claim asks that an image be paired with the translation that has its
  base name, and the comment in \<open>findMatchingTranslation\<close> calls this the direct base
  name match of the mokuro standard. The entries \<open>images/p1.jpg\<close> and \<open>json/p1.json\<close>
  both have the base name \<open>p1\<close>, yet the page gets no translation: the recorded base
  names are \<open>images/p1\<close> and \<open>json/p1\<close>, which neither are equal nor normalise to
  the same string. This is the defect of claim C2 seen from the matcher.
\<close>

theorem matcher_misses_exact_match:
  "map translation (matched (matchFiles codeUnitCompare (snd (extractFiles newFileManager
       [imageEntry ''images/p1.jpg'' 10, jsonEntry ''json/p1.json'' pageDocText pageDoc]))))
     = [None]
   \<and> map hasTranslation (matched (matchFiles codeUnitCompare (snd (extractFiles newFileManager
       [imageEntry ''images/p1.jpg'' 10, jsonEntry ''json/p1.json'' pageDocText pageDoc]))))
     = [False]
   \<and> getBaseName (cleanFilename ''images/p1.jpg'') = ''p1''
   \<and> getBaseName (cleanFilename ''json/p1.json'') = ''p1''
   \<and> map baseName (images (snd (extractFiles newFileManager
       [imageEntry ''images/p1.jpg'' 10, jsonEntry ''json/p1.json'' pageDocText pageDoc])))
     = [''images/p1'']
   \<and> map baseName (translationFiles (snd (extractFiles newFileManager
       [imageEntry ''images/p1.jpg'' 10, jsonEntry ''json/p1.json'' pageDocText pageDoc])))
     = [''json/p1'']"
  by (simp add: pipeline_eval string_eval)

section \<open>The archive size cap\<close>

text \<open>
  Claim C9. When no upload is in progress, \<open>processZipFile\<close> rejects every file larger
  than 100 MiB and every file of zero bytes with a validation error, whatever the archive
  holds: the result does not depend on the decoded entries, and the lists of images,
  translations and pages are left empty.
\<close>

theorem processZipFile_size_cap:
  assumes "\<not> processing st"
    and "fileSize f > 100 * 1024 * 1024 \<or> fileSize f = 0"
  shows "processZipFile localeCompare st (Some f) zipData =
           (Inl (if fileType f \<noteq> ''application/zip''
                    \<and> \<not> endsWith (toLowerCase (fileName f)) ''.zip'' then NotZip
                 else if fileSize f > 100 * 1024 * 1024 then FileTooLarge
                 else EmptyZipFile),
            st\<lparr>images := [], translationFiles := [], matched := [], processing := False\<rparr>)"
  using assms by (auto simp: processZipFile_def validateZipFile_def maxFileSize_def Let_def)

theorem processZipFile_size_cap_witness:
  "processZipFile (\<lambda>a b. 0) newFileManager
      (Some \<lparr>fileName = ''big.zip'', fileType = ''application/zip'',
             fileSize = 100 * 1024 * 1024 + 1\<rparr>)
      (Some [imageEntry ''p1.jpg'' 10])
     = (Inl FileTooLarge, newFileManager)
   \<and> processZipFile (\<lambda>a b. 0) newFileManager
      (Some \<lparr>fileName = ''none.zip'', fileType = ''application/zip'', fileSize = 0\<rparr>)
      (Some [imageEntry ''p1.jpg'' 10])
     = (Inl EmptyZipFile, newFileManager)"
proof -
  have idle: "\<not> processing newFileManager" by (simp add: newFileManager_def)
  have big: "fileSize \<lparr>fileName = ''big.zip'', fileType = ''application/zip'',
      fileSize = 100 * 1024 * 1024 + 1\<rparr> > 100 * 1024 * 1024
    \<or> fileSize \<lparr>fileName = ''big.zip'', fileType = ''application/zip'',
      fileSize = 100 * 1024 * 1024 + 1\<rparr> = 0" by simp
  have none: "fileSize \<lparr>fileName = ''none.zip'', fileType = ''application/zip'', fileSize = 0\<rparr>
      > 100 * 1024 * 1024
    \<or> fileSize \<lparr>fileName = ''none.zip'', fileType = ''application/zip'', fileSize = 0\<rparr> = 0"
    by simp
  show ?thesis
    using processZipFile_size_cap [OF idle big, of "\<lambda>a b. 0" "Some [imageEntry ''p1.jpg'' 10]"]
      processZipFile_size_cap [OF idle none, of "\<lambda>a b. 0" "Some [imageEntry ''p1.jpg'' 10]"]
    by (simp add: newFileManager_def)
qed

section \<open>The session payload\<close>

lemmas match_eval = processZipFile_def validateZipFile_def maxFileSize_def extractFiles_def
  extractEntry_def processImageFile_def processJSONFile_def newFileManager_def
  shouldSkipFile_def isImage_def isJSON_def isValidImage_def cleanFilename_def getBaseName_def
  matchFiles_def sortBy_def naturalSort_def padStart_def codeUnitCompare_def
  findMatchingTranslation_def validateFileStructure_def resultObject_def Let_def

lemma upload_example:
  "processZipFile codeUnitCompare newFileManager (Some exampleFile)
      (Some [imageEntry ''p1.jpg'' 10])
   = (Inr exampleResult,
      \<lparr>images = [imageNamed ''p1.jpg'' ''p1''], translationFiles = [],
       matched = [examplePage], processing = False\<rparr>)"
  by (simp add: match_eval string_eval)

text \<open>
  Claim C7 as stated fails on the inner level: a session written after an upload holds,
  under \<open>files\<close>, the whole result of \<open>processZipFile\<close>, which also has the fields
  \<open>success\<close> and \<open>stats\<close>.
\<close>

theorem stored_files_fields_counterexample:
  "fst (processZipFile codeUnitCompare newFileManager (Some exampleFile)
          (Some [imageEntry ''p1.jpg'' 10])) = Inr exampleResult
   \<and> startReading \<lparr>db = Some Map.empty\<rparr> (Some exampleResult) ''series'' 1000 1000
       = Inr \<lparr>db = Some [''series'' \<mapsto> seriesData ''series'' exampleResult 1000 1000]\<rparr>
   \<and> map_option objectKeys (getField (seriesData ''series'' exampleResult 1000 1000) ''files'')
       = Some [''success'', ''images'', ''translations'', ''matched'', ''stats'']
   \<and> map_option objectKeys (getField (seriesData ''series'' exampleResult 1000 1000) ''files'')
       \<noteq> Some [''images'', ''translations'', ''matched'']"
  by (simp add: upload_example startReading_def storeSeries_def seriesData_def)

lemma fields_resultObject:
  "objectKeys (resultObject st f) = [''success'', ''images'', ''translations'', ''matched'', ''stats'']"
  by (simp add: resultObject_def)

lemma processZipFile_result:
  assumes "processZipFile cmp st file zipData = (Inr r, st')"
  shows "\<exists>st3 f. r = resultObject st3 f"
  using assms
  by (auto simp: processZipFile_def Let_def split: if_splits sum.splits option.splits prod.splits)

text \<open>
  Claim C7, amended. The payload written for a session has exactly the fields \<open>name\<close>,
  \<open>files\<close>, \<open>uploadDate\<close> and \<open>expiresAt\<close>; its \<open>files\<close> field is the result of
  \<open>processZipFile\<close> as \<open>startReading\<close> passes it on, with exactly the fields
  \<open>success\<close>, \<open>images\<close>, \<open>translations\<close>, \<open>matched\<close> and \<open>stats\<close>.
\<close>

theorem session_payload_shape:
  assumes "processZipFile cmp st file zipData = (Inr r, st')"
    and "db m = Some store"
  shows "startReading m (Some r) name now1 now2
           = Inr (m\<lparr>db := Some (store(name \<mapsto> seriesData name r now1 now2))\<rparr>)
       \<and> objectKeys (seriesData name r now1 now2) = [''name'', ''files'', ''uploadDate'', ''expiresAt'']
       \<and> getField (seriesData name r now1 now2) ''files'' = Some r
       \<and> objectKeys r = [''success'', ''images'', ''translations'', ''matched'', ''stats'']"
proof -
  from assms(1) obtain st3 f where "r = resultObject st3 f"
    using processZipFile_result by blast
  then have "objectKeys r = [''success'', ''images'', ''translations'', ''matched'', ''stats'']"
    by (simp add: fields_resultObject)
  with assms(2) show ?thesis
    by (simp add: startReading_def storeSeries_def seriesData_def)
qed

theorem session_payload_shape_witness:
  "startReading \<lparr>db = Some Map.empty\<rparr> (Some exampleResult) ''series'' 1000 1000
     = Inr \<lparr>db = Some [''series'' \<mapsto> seriesData ''series'' exampleResult 1000 1000]\<rparr>
   \<and> objectKeys (seriesData ''series'' exampleResult 1000 1000)
     = [''name'', ''files'', ''uploadDate'', ''expiresAt'']
   \<and> getField (seriesData ''series'' exampleResult 1000 1000) ''files'' = Some exampleResult
   \<and> objectKeys exampleResult = [''success'', ''images'', ''translations'', ''matched'', ''stats'']"
proof -
  have d: "db \<lparr>db = Some Map.empty\<rparr> = Some Map.empty" by simp
  show ?thesis
    using session_payload_shape [OF upload_example d, of "''series''" 1000 1000] by simp
qed

section \<open>Session expiry\<close>

text \<open>
  Claim C8. On an initialised store, \<open>storeSeries\<close> writes a payload whose
  \<open>expiresAt\<close> is the clock reading taken at creation plus 24 hours. A retrieval at a
  time after \<open>expiresAt\<close> resolves to \<open>null\<close> and removes the entry from the store; a
  retrieval at a time up to \<open>expiresAt\<close> resolves to the stored payload and leaves the
  store as it is.
\<close>

theorem session_expiry:
  assumes "db m = Some store"
  shows "storeSeries m name files now1 now2
           = Inr (m\<lparr>db := Some (store(name \<mapsto> seriesData name files now1 now2))\<rparr>)
       \<and> getField (seriesData name files now1 now2) ''expiresAt''
           = Some (VNum (now2 + 24 * 60 * 60 * 1000))
       \<and> (now2 + 24 * 60 * 60 * 1000 < now \<longrightarrow>
            getSeries (m\<lparr>db := Some (store(name \<mapsto> seriesData name files now1 now2))\<rparr>) name now
              = (Inr None, m\<lparr>db := Some (store(name := None))\<rparr>))
       \<and> (now \<le> now2 + 24 * 60 * 60 * 1000 \<longrightarrow>
            getSeries (m\<lparr>db := Some (store(name \<mapsto> seriesData name files now1 now2))\<rparr>) name now
              = (Inr (Some (seriesData name files now1 now2)),
                 m\<lparr>db := Some (store(name \<mapsto> seriesData name files now1 now2))\<rparr>))"
  using assms
  by (simp add: storeSeries_def getSeries_def deleteSeries_def expired_def seriesData_def)

theorem session_expiry_witness:
  "storeSeries \<lparr>db = Some Map.empty\<rparr> ''series'' exampleResult 1000 1001
     = Inr \<lparr>db = Some [''series'' \<mapsto> seriesData ''series'' exampleResult 1000 1001]\<rparr>
   \<and> getField (seriesData ''series'' exampleResult 1000 1001) ''expiresAt'' = Some (VNum 86401001)
   \<and> getSeries \<lparr>db = Some [''series'' \<mapsto> seriesData ''series'' exampleResult 1000 1001]\<rparr>
        ''series'' 86401002
     = (Inr None, \<lparr>db = Some Map.empty\<rparr>)
   \<and> getSeries \<lparr>db = Some [''series'' \<mapsto> seriesData ''series'' exampleResult 1000 1001]\<rparr>
        ''series'' 86401001
     = (Inr (Some (seriesData ''series'' exampleResult 1000 1001)),
        \<lparr>db = Some [''series'' \<mapsto> seriesData ''series'' exampleResult 1000 1001]\<rparr>)"
proof -
  have d: "db \<lparr>db = Some Map.empty\<rparr> = Some Map.empty" by simp
  show ?thesis
    using session_expiry [OF d, of "''series''" exampleResult 1000 1001 86401002]
      session_expiry [OF d, of "''series''" exampleResult 1000 1001 86401001]
    by simp
qed

section \<open>Reading progress under sanitised names\<close>

lemma sanitize_empty: "sanitize s = [] \<longleftrightarrow> s = []"
  by (simp add: sanitize_def toLowerCase_def)

text \<open>
  Two non-empty names with the same sanitised form, other than \<open>__proto__\<close>, share one
  record: what is saved under one is read under the other, and a later save under the
  other replaces it.
\<close>

lemma progress_shared_by_sanitized_name:
  assumes "a \<noteq> []" and "sanitize a = sanitize b" and "sanitize a \<noteq> ''__proto__''"
  shows "getProgress (snd (saveProgress sm a (Some d) now)) b
           = Found \<lparr>originalName = a, currentPage = pdCurrentPage d, totalPages = pdTotalPages d,
                    lastRead = (if pdLastRead d = 0 then now else pdLastRead d),
                    percentage = (if pdTotalPages d > 0
                        then mathRound (real_of_int (pdCurrentPage d)
                               / real_of_int (pdTotalPages d) * 100)
                        else 0)\<rparr>
       \<and> getAllProgress (snd (saveProgress (snd (saveProgress sm a (Some d) now)) b (Some d') now'))
           = (getAllProgress sm)(sanitize a \<mapsto>
               \<lparr>originalName = b, currentPage = pdCurrentPage d', totalPages = pdTotalPages d',
                lastRead = (if pdLastRead d' = 0 then now' else pdLastRead d'),
                percentage = (if pdTotalPages d' > 0
                    then mathRound (real_of_int (pdCurrentPage d')
                           / real_of_int (pdTotalPages d') * 100)
                    else 0)\<rparr>)"
proof -
  from assms(1,2) have b: "b \<noteq> []" using sanitize_empty by metis
  from assms b show ?thesis
    by (simp add: getProgress_def saveProgress_def getAllProgress_def assignProperty_def
        readProperty_def setCurrentSeries_def Let_def)
qed

text \<open>
  Claim C10. The names \<open>__proto__\<close> and \<open>__PROTO__\<close> have the same sanitised form,
  \<open>__proto__\<close>. Saving progress under the first reports success but writes no record,
  since the assignment to the key \<open>__proto__\<close> replaces the prototype of the progress
  object instead of adding a property; reading under the second then gives the inherited
  \<open>Object.prototype\<close>, not the record saved under the first.
\<close>

theorem saveProgress_proto_lost:
  "saveProgress \<lparr>progressItem = None, currentSeriesCookie = None\<rparr> ''__proto__''
      (Some \<lparr>pdCurrentPage = 3, pdTotalPages = 10, pdLastRead = 1000\<rparr>) 2000
     = (True, \<lparr>progressItem = Some Map.empty, currentSeriesCookie = Some ''__proto__''\<rparr>)
   \<and> sanitize ''__PROTO__'' = sanitize ''__proto__''
   \<and> getProgress \<lparr>progressItem = Some Map.empty, currentSeriesCookie = Some ''__proto__''\<rparr>
        ''__PROTO__'' = Inherited ''__proto__''"
  by (simp add: getProgress_def saveProgress_def getAllProgress_def assignProperty_def
      readProperty_def setCurrentSeries_def objectPrototypeKeys_def Let_def
      sanitize_def sanitizeChar_def string_eval)

section \<open>The page sequence\<close>

text \<open>
  What \<open>matchFiles\<close> does for a collation that is a total preorder: one page per
  image, the pages' images a permutation of the given images, the page indices
  \<open>0, 1, \<dots>, n - 1\<close> in sequence order, and the pages in the order of the collation
  applied to the padded file names.
\<close>

lemma matchFiles_pages:
  assumes "\<forall>a b. localeCompare a b \<le> 0 \<or> localeCompare b a \<le> 0"
    and "\<forall>a b c. localeCompare a b \<le> 0 \<longrightarrow> localeCompare b c \<le> 0 \<longrightarrow> localeCompare a c \<le> 0"
  shows "length (matched (matchFiles localeCompare st)) = length (images st)
       \<and> map pageIndex (matched (matchFiles localeCompare st)) = [0..<length (images st)]
       \<and> mset (map image (matched (matchFiles localeCompare st))) = mset (images st)
       \<and> sorted_wrt (\<lambda>a b. localeCompare (normalizeDigits (filename a))
                                         (normalizeDigits (filename b)) \<le> 0)
            (map image (matched (matchFiles localeCompare st)))"
proof -
  let ?cmp = "\<lambda>a b. naturalSort localeCompare (filename a) (filename b)"
  let ?sorted = "sortBy ?cmp (images st)"
  have m: "matched (matchFiles localeCompare st) = matchLoop (translationFiles st) [] ?sorted"
    by (simp add: matchFiles_def Let_def)
  have img: "map image (matched (matchFiles localeCompare st)) = ?sorted"
    unfolding m by (simp add: matchLoop_image)
  have len: "length (matched (matchFiles localeCompare st)) = length (images st)"
    using img length_sortBy [of ?cmp "images st"] by (metis length_map)
  have idx: "map pageIndex (matched (matchFiles localeCompare st)) = [0..<length (images st)]"
    unfolding m using matchLoop_pageIndex [of "[]" "translationFiles st" ?sorted]
    by (simp add: length_sortBy)
  have t1: "\<forall>a b. ?cmp a b \<le> 0 \<or> ?cmp b a \<le> 0"
    using assms(1) by (simp add: naturalSort_def)
  have t2: "\<forall>a b c. ?cmp a b \<le> 0 \<longrightarrow> ?cmp b c \<le> 0 \<longrightarrow> ?cmp a c \<le> 0"
    using assms(2) unfolding naturalSort_def by blast
  have "sorted_wrt (\<lambda>a b. ?cmp a b \<le> 0) ?sorted"
    using t1 t2 by (rule sorted_sortBy)
  then have srt: "sorted_wrt (\<lambda>a b. localeCompare (normalizeDigits (filename a))
                                         (normalizeDigits (filename b)) \<le> 0) ?sorted"
    by (simp add: naturalSort_def)
  from len idx img srt mset_sortBy [of ?cmp "images st"] show ?thesis by simp
qed

lemma compareCodes_total: "compareCodes a b \<le> 0 \<or> compareCodes b a \<le> 0"
  by (induction a b rule: compareCodes.induct) auto

lemma compareCodes_trans:
  "compareCodes a b \<le> 0 \<Longrightarrow> compareCodes b c \<le> 0 \<Longrightarrow> compareCodes a c \<le> 0"
proof (induction a arbitrary: b c)
  case Nil
  then show ?case by (cases c) auto
next
  case (Cons x xs)
  show ?case
  proof (cases b)
    case Nil
    with Cons.prems show ?thesis by simp
  next
    case b: (Cons y ys)
    show ?thesis
    proof (cases c)
      case Nil
      with Cons.prems b show ?thesis by simp
    next
      case c: (Cons z zs)
      from Cons.prems b c have 1: "x \<le> y" "y \<le> z"
        by (auto split: if_splits)
      show ?thesis
      proof (cases "x = y \<and> y = z")
        case True
        with Cons.prems b c have "compareCodes xs ys \<le> 0" "compareCodes ys zs \<le> 0" by auto
        then have "compareCodes xs zs \<le> 0" by (rule Cons.IH)
        with True c show ?thesis by simp
      next
        case False
        with 1 have "x < z" by auto
        with c show ?thesis by simp
      qed
    qed
  qed
qed

lemma codeUnitCompare_total: "\<forall>a b. codeUnitCompare a b \<le> 0 \<or> codeUnitCompare b a \<le> 0"
  by (simp add: codeUnitCompare_def compareCodes_total)

lemma codeUnitCompare_trans:
  "\<forall>a b c. codeUnitCompare a b \<le> 0 \<longrightarrow> codeUnitCompare b c \<le> 0 \<longrightarrow> codeUnitCompare a c \<le> 0"
  unfolding codeUnitCompare_def using compareCodes_trans by blast

lemma replicate_numeral: "replicate (numeral k) x = x # replicate (pred_numeral k) x"
  by (simp add: numeral_eq_Suc)

lemmas sort_eval = replicate_numeral matchFiles_def sortBy_def naturalSort_def padStart_def codeUnitCompare_def
  findMatchingTranslation_def Let_def

lemma digitsValue_bound: "\<forall>c \<in> set d. isDigit c \<Longrightarrow> digitsValue d < 10 ^ length d"
proof (induction d)
  case Nil
  show ?case by simp
next
  case (Cons c cs)
  then have v: "digitsValue cs < 10 ^ length cs" by simp
  from Cons.prems have "isDigit c" by simp
  then have "(of_char c :: nat) \<le> 57" unfolding isDigit_def by (rule conjunct2)
  then have "(of_char c :: nat) - 48 \<le> 9" by arith
  then have m: "((of_char c :: nat) - 48) * 10 ^ length cs \<le> 9 * 10 ^ length cs"
    by (rule mult_le_mono1)
  have "digitsValue (c # cs) = ((of_char c :: nat) - 48) * 10 ^ length cs + digitsValue cs"
    by simp
  also from v m have "\<dots> < 10 * 10 ^ length cs" by linarith
  finally show ?case by simp
qed

lemma compareCodes_digits:
  assumes "length d1 = length d2"
    and "\<forall>c \<in> set d1. isDigit c" and "\<forall>c \<in> set d2. isDigit c"
  shows "compareCodes (map of_char d1) (map of_char d2) \<le> 0 \<longleftrightarrow> digitsValue d1 \<le> digitsValue d2"
  using assms
proof (induction d1 d2 rule: list_induct2)
  case Nil
  show ?case by simp
next
  case (Cons x xs y ys)
  let ?a = "(of_char x :: nat)" and ?b = "(of_char y :: nat)"
  from Cons.prems have dx: "48 \<le> ?a" and dy: "48 \<le> ?b" by (simp_all add: isDigit_def)
  from Cons.prems have bx: "digitsValue xs < 10 ^ length xs" and by': "digitsValue ys < 10 ^ length ys"
    by (simp_all add: digitsValue_bound)
  from Cons.hyps have len: "length ys = length xs" by simp
  consider "?a < ?b" | "?b < ?a" | "?a = ?b" by linarith
  then show ?case
  proof cases
    case 1
    with dx have "(?a - 48) + 1 \<le> ?b - 48" by simp
    then have "((?a - 48) + 1) * 10 ^ length xs \<le> (?b - 48) * 10 ^ length xs"
      by (rule mult_le_mono1)
    with bx have "(?a - 48) * 10 ^ length xs + digitsValue xs \<le> (?b - 48) * 10 ^ length xs"
      by (simp add: algebra_simps)
    with 1 len show ?thesis by simp
  next
    case 2
    with dy have "(?b - 48) + 1 \<le> ?a - 48" by simp
    then have "((?b - 48) + 1) * 10 ^ length xs \<le> (?a - 48) * 10 ^ length xs"
      by (rule mult_le_mono1)
    with by' len have "(?b - 48) * 10 ^ length xs + digitsValue ys < (?a - 48) * 10 ^ length xs + digitsValue xs"
      by (simp add: algebra_simps)
    with 2 len show ?thesis by simp
  next
    case 3
    with Cons.IH Cons.prems len show ?thesis by simp
  qed
qed

lemma digitsValue_padStart:
  "digitsValue (padStart n CHR ''0'' d) = digitsValue d"
proof -
  have "digitsValue (replicate k CHR ''0'' @ d) = digitsValue d" for k
    by (induction k) simp_all
  then show ?thesis by (simp add: padStart_def)
qed

text \<open>
  Runs of at most ten digits, once padded, are ordered by \<open>codeUnitCompare\<close> as the
  numbers they denote.
\<close>

lemma padStart_orders_numerically:
  assumes "\<forall>c \<in> set d1. isDigit c" and "\<forall>c \<in> set d2. isDigit c"
    and "length d1 \<le> 10" and "length d2 \<le> 10"
  shows "codeUnitCompare (padStart 10 CHR ''0'' d1) (padStart 10 CHR ''0'' d2) \<le> 0
           \<longleftrightarrow> digitsValue d1 \<le> digitsValue d2"
proof -
  let ?p1 = "padStart 10 CHR ''0'' d1" and ?p2 = "padStart 10 CHR ''0'' d2"
  from assms(3,4) have "length ?p1 = length ?p2" by (simp add: padStart_def)
  moreover from assms(1) have "\<forall>c \<in> set ?p1. isDigit c"
    by (auto simp: padStart_def isDigit_def)
  moreover from assms(2) have "\<forall>c \<in> set ?p2. isDigit c"
    by (auto simp: padStart_def isDigit_def)
  ultimately have "compareCodes (map of_char ?p1) (map of_char ?p2) \<le> 0
      \<longleftrightarrow> digitsValue ?p1 \<le> digitsValue ?p2"
    by (rule compareCodes_digits)
  then show ?thesis by (simp add: codeUnitCompare_def digitsValue_padStart)
qed

text \<open>
  Claim C1. The claim asks for digit runs to be compared as numbers, and the comment on
  \<open>naturalSort\<close> says that it handles numbers correctly. The padding to ten digits
  leaves a run of eleven digits as it is, so the two names below are compared unpadded,
  and \<open>p10000000000.jpg\<close> is placed before \<open>p9999999999.jpg\<close>, which has the
  smaller number. The names differ first in the characters \<open>1\<close> and \<open>9\<close>, which
  every collation orders in this way.
\<close>

theorem matchFiles_long_digit_run:
  "normalizeDigits ''p10000000000.jpg'' = ''p10000000000.jpg''
   \<and> normalizeDigits ''p9999999999.jpg'' = ''p9999999999.jpg''
   \<and> map filename (map image (matched (matchFiles codeUnitCompare
        \<lparr>images = [imageNamed ''p9999999999.jpg'' ''p9999999999'',
                   imageNamed ''p10000000000.jpg'' ''p10000000000''],
         translationFiles = [], matched = [], processing = True\<rparr>)))
       = [''p10000000000.jpg'', ''p9999999999.jpg'']
   \<and> (9999999999 :: nat) < 10000000000"
  by (simp add: sort_eval string_eval)

text \<open>
  The images \<open>page2\<close>, \<open>page10\<close>, \<open>page1\<close> come out as \<open>page1\<close>, \<open>page2\<close>,
  \<open>page10\<close>, with the indices 0, 1, 2.
\<close>

lemma matchFiles_pages_example:
  "map filename (map image (matched (matchFiles codeUnitCompare
        \<lparr>images = [imageNamed ''page2.jpg'' ''page2'', imageNamed ''page10.jpg'' ''page10'',
                   imageNamed ''page1.jpg'' ''page1''],
         translationFiles = [], matched = [], processing = True\<rparr>)))
       = [''page1.jpg'', ''page2.jpg'', ''page10.jpg'']
   \<and> map pageIndex (matched (matchFiles codeUnitCompare
        \<lparr>images = [imageNamed ''page2.jpg'' ''page2'', imageNamed ''page10.jpg'' ''page10'',
                   imageNamed ''page1.jpg'' ''page1''],
         translationFiles = [], matched = [], processing = True\<rparr>))
       = [0, 1, 2]"
proof -
  have order: "map filename (map image (matched (matchFiles codeUnitCompare
        \<lparr>images = [imageNamed ''page2.jpg'' ''page2'', imageNamed ''page10.jpg'' ''page10'',
                   imageNamed ''page1.jpg'' ''page1''],
         translationFiles = [], matched = [], processing = True\<rparr>)))
       = [''page1.jpg'', ''page2.jpg'', ''page10.jpg'']"
    by (simp add: sort_eval string_eval)
  have "[0..<3] = [0, 1, 2::nat]" by (simp add: upt_rec)
  with matchFiles_pages [OF codeUnitCompare_total codeUnitCompare_trans,
      of "\<lparr>images = [imageNamed ''page2.jpg'' ''page2'', imageNamed ''page10.jpg'' ''page10'',
                   imageNamed ''page1.jpg'' ''page1''],
         translationFiles = [], matched = [], processing = True\<rparr>"]
    order
  show ?thesis by simp
qed

section \<open>Separation: the loops\<close>

lemma sweepPairs_bounds: "(i, j) \<in> set (sweepPairs n) \<Longrightarrow> i < j \<and> j < n"
  by (auto simp: sweepPairs_def)

lemma foldl_invariant:
  assumes "P s" and "\<And>t x. P t \<Longrightarrow> x \<in> set xs \<Longrightarrow> P (f t x)"
  shows "P (foldl f s xs)"
  using assms by (induction xs arbitrary: s) auto

lemma nudge_size:
  "rectWidth (nudgeWithinOverlay el dx dy ov) = rectWidth el"
  "rectHeight (nudgeWithinOverlay el dx dy ov) = rectHeight el"
  by (simp_all add: nudgeWithinOverlay_def Let_def)

section \<open>Separation: restoring the original positions\<close>












section \<open>Separation: sweeps and budget\<close>

lemma clamp_fixed:
  fixes lo hi x d :: real
  assumes "max lo (min hi x) = x"
  shows "\<bar>max lo (min hi (x + d)) - x\<bar> \<le> \<bar>d\<bar>"
  using assms by (auto simp: max_def min_def split: if_splits)

lemma clamp_idem:
  fixes lo hi x :: real
  shows "max lo (min hi (max lo (min hi x))) = max lo (min hi x)"
  by (auto simp: max_def min_def)

lemma in_bounds_iff:
  "nudgeWithinOverlay b 0 0 ov = b \<longleftrightarrow>
     max margin (min (rWidth ov - rectWidth b - margin) (styleLeft b)) = styleLeft b
     \<and> max margin (min (rHeight ov - rectHeight b - margin) (styleTop b)) = styleTop b"
proof
  assume h: "nudgeWithinOverlay b 0 0 ov = b"
  have "styleLeft (nudgeWithinOverlay b 0 0 ov) = styleLeft b"
    and "styleTop (nudgeWithinOverlay b 0 0 ov) = styleTop b"
    by (simp_all only: h)
  then show "max margin (min (rWidth ov - rectWidth b - margin) (styleLeft b)) = styleLeft b
     \<and> max margin (min (rHeight ov - rectHeight b - margin) (styleTop b)) = styleTop b"
    by (simp add: nudgeWithinOverlay_def getBoundingClientRect_def Let_def)
next
  assume "max margin (min (rWidth ov - rectWidth b - margin) (styleLeft b)) = styleLeft b
     \<and> max margin (min (rHeight ov - rectHeight b - margin) (styleTop b)) = styleTop b"
  then show "nudgeWithinOverlay b 0 0 ov = b"
    by (simp add: nudgeWithinOverlay_def getBoundingClientRect_def Let_def)
qed

lemma nudge_stays_in_bounds:
  "nudgeWithinOverlay (nudgeWithinOverlay b dx dy ov) 0 0 ov = nudgeWithinOverlay b dx dy ov"
  unfolding in_bounds_iff
  by (simp add: nudgeWithinOverlay_def getBoundingClientRect_def Let_def clamp_idem)

lemma nudge_distance:
  assumes "nudgeWithinOverlay b 0 0 ov = b"
  shows "\<bar>styleLeft (nudgeWithinOverlay b dx dy ov) - styleLeft b\<bar> \<le> \<bar>dx\<bar>"
    and "\<bar>styleTop (nudgeWithinOverlay b dx dy ov) - styleTop b\<bar> \<le> \<bar>dy\<bar>"
proof -
  from assms have l: "max margin (min (rWidth ov - rectWidth b - margin) (styleLeft b)) = styleLeft b"
    and t: "max margin (min (rHeight ov - rectHeight b - margin) (styleTop b)) = styleTop b"
    by (simp_all add: in_bounds_iff)
  show "\<bar>styleLeft (nudgeWithinOverlay b dx dy ov) - styleLeft b\<bar> \<le> \<bar>dx\<bar>"
    using clamp_fixed [OF l, of dx]
    by (simp add: nudgeWithinOverlay_def getBoundingClientRect_def Let_def)
  show "\<bar>styleTop (nudgeWithinOverlay b dx dy ov) - styleTop b\<bar> \<le> \<bar>dy\<bar>"
    using clamp_fixed [OF t, of dy]
    by (simp add: nudgeWithinOverlay_def getBoundingClientRect_def Let_def)
qed

lemma pairStep_le: "pairStep ra rb ma mb \<le> maxPairStep / 2"
  by (simp add: pairStep_def Let_def min_def)

lemma pairStep_cap:
  assumes "0 < pairStep ra rb ma mb"
  shows "pairStep ra rb ma mb \<le> maxTotal - ma" and "pairStep ra rb ma mb \<le> maxTotal - mb"
  using assms by (auto simp: pairStep_def Let_def min_def max_def split: if_splits)

lemma movedOf_addMoved:
  "movedOf (addMoved m el dx dy) k = (if k = el then movedOf m el + \<bar>dx\<bar> + \<bar>dy\<bar> else movedOf m k)"
  by (simp add: movedOf_def addMoved_def)


lemma budget_update:
  assumes wb: "withinBudget ov B s"
    and i: "i < length B" and j: "j < length B" and ij: "i \<noteq> j"
    and step: "0 < step" "step \<le> maxTotal - movedOf (movedTotals s) i"
      "step \<le> maxTotal - movedOf (movedTotals s) j"
    and da: "\<bar>dxa\<bar> + \<bar>dya\<bar> = step" and db: "\<bar>dxb\<bar> + \<bar>dyb\<bar> = step"
  shows "withinBudget ov B
           (s\<lparr>sBlocks := (sBlocks s)[i := nudgeWithinOverlay (sBlocks s ! i) dxa dya ov,
                                      j := nudgeWithinOverlay (sBlocks s ! j) dxb dyb ov],
              movedTotals := addMoved (addMoved (movedTotals s) i dxa dya) j dxb dyb,
              originals := orig,
              anyMoved := True\<rparr>)"
proof -
  let ?bs = "(sBlocks s)[i := nudgeWithinOverlay (sBlocks s ! i) dxa dya ov,
                         j := nudgeWithinOverlay (sBlocks s ! j) dxb dyb ov]"
  let ?m = "addMoved (addMoved (movedTotals s) i dxa dya) j dxb dyb"
  from wb have len: "length (sBlocks s) = length B" by (simp add: withinBudget_def)
  from wb have mb: "\<And>el. 0 \<le> movedOf (movedTotals s) el \<and> movedOf (movedTotals s) el \<le> maxTotal"
    by (simp add: withinBudget_def)
  have m: "movedOf ?m el = (if el = i \<or> el = j then movedOf (movedTotals s) el + step
                            else movedOf (movedTotals s) el)" for el
    using ij da db by (auto simp: movedOf_addMoved)
  have nth: "?bs ! el = (if el = j then nudgeWithinOverlay (sBlocks s ! j) dxb dyb ov
                         else if el = i then nudgeWithinOverlay (sBlocks s ! i) dxa dya ov
                         else sBlocks s ! el)" if "el < length B" for el
    using that len i j ij by (simp add: nth_list_update)
  have c1: "length ?bs = length B" using len by simp
  have c2: "0 \<le> movedOf ?m el \<and> movedOf ?m el \<le> maxTotal" for el
    using mb [of el] step by (auto simp: m)
  have c3: "rectWidth (?bs ! el) = rectWidth (B ! el) \<and> rectHeight (?bs ! el) = rectHeight (B ! el)"
    if el: "el < length B" for el
  proof -
    from wb el have "rectWidth (sBlocks s ! el) = rectWidth (B ! el)"
      "rectHeight (sBlocks s ! el) = rectHeight (B ! el)"
      by (simp_all add: withinBudget_def)
    then show ?thesis using el by (auto simp: nth nudge_size)
  qed
  have c4: "nudgeWithinOverlay (?bs ! el) 0 0 ov = ?bs ! el
        \<and> \<bar>styleLeft (?bs ! el) - styleLeft (B ! el)\<bar> + \<bar>styleTop (?bs ! el) - styleTop (B ! el)\<bar>
            \<le> movedOf ?m el"
    if el: "el < length B" and inb: "nudgeWithinOverlay (B ! el) 0 0 ov = B ! el" for el
  proof -
    from wb el inb have old: "nudgeWithinOverlay (sBlocks s ! el) 0 0 ov = sBlocks s ! el"
      and disp: "\<bar>styleLeft (sBlocks s ! el) - styleLeft (B ! el)\<bar>
          + \<bar>styleTop (sBlocks s ! el) - styleTop (B ! el)\<bar> \<le> movedOf (movedTotals s) el"
      by (simp_all add: withinBudget_def)
    have moved: "nudgeWithinOverlay (nudgeWithinOverlay (sBlocks s ! el) dx dy ov) 0 0 ov
          = nudgeWithinOverlay (sBlocks s ! el) dx dy ov
        \<and> \<bar>styleLeft (nudgeWithinOverlay (sBlocks s ! el) dx dy ov) - styleLeft (B ! el)\<bar>
          + \<bar>styleTop (nudgeWithinOverlay (sBlocks s ! el) dx dy ov) - styleTop (B ! el)\<bar>
          \<le> movedOf (movedTotals s) el + step"
      if d: "\<bar>dx\<bar> + \<bar>dy\<bar> = step" for dx dy
      using nudge_stays_in_bounds [of "sBlocks s ! el" dx dy ov]
        nudge_distance [OF old, of dx dy] disp d
      by linarith
    show ?thesis
    proof (cases "el = j")
      case True
      with nth [OF el] have e: "?bs ! el = nudgeWithinOverlay (sBlocks s ! el) dxb dyb ov" by simp
      from True have "movedOf ?m el = movedOf (movedTotals s) el + step" by (simp add: m)
      with moved [OF db] show ?thesis unfolding e by simp
    next
      case nj: False
      show ?thesis
      proof (cases "el = i")
        case True
        with nj nth [OF el] have e: "?bs ! el = nudgeWithinOverlay (sBlocks s ! el) dxa dya ov"
          by simp
        from True have "movedOf ?m el = movedOf (movedTotals s) el + step" by (simp add: m)
        with moved [OF da] show ?thesis unfolding e by simp
      next
        case False
        with nj nth [OF el] have e: "?bs ! el = sBlocks s ! el" by simp
        from False nj have "movedOf ?m el = movedOf (movedTotals s) el" by (simp add: m)
        with old disp show ?thesis unfolding e by simp
      qed
    qed
  qed
  from c1 c2 c3 c4 show ?thesis by (simp add: withinBudget_def)
qed

lemma separatePair_budget:
  assumes wb: "withinBudget ov B s" and ij: "i < j" and j: "j < length B"
  shows "withinBudget ov B (separatePair ov s (i, j))"
proof -
  let ?ra = "getBoundingClientRect (sBlocks s ! i)"
  let ?rb = "getBoundingClientRect (sBlocks s ! j)"
  let ?step = "pairStep ?ra ?rb (movedOf (movedTotals s) i) (movedOf (movedTotals s) j)"
  from ij j have i: "i < length B" and ne: "i \<noteq> j" by auto
  show ?thesis
  proof (cases "rectsOverlap ?ra ?rb \<and> 0 < ?step")
    case False
    then have "separatePair ov s (i, j) = s"
      by (auto simp: separatePair_def Let_def)
    with wb show ?thesis by simp
  next
    case True
    then have pos: "0 < ?step" by simp
    note cap = pairStep_cap [OF pos]
    have upd: "withinBudget ov B
           (s\<lparr>sBlocks := (sBlocks s)[i := nudgeWithinOverlay (sBlocks s ! i) dxa dya ov,
                                      j := nudgeWithinOverlay (sBlocks s ! j) dxb dyb ov],
              movedTotals := addMoved (addMoved (movedTotals s) i dxa dya) j dxb dyb,
              originals := orig,
              anyMoved := True\<rparr>)"
      if "\<bar>dxa\<bar> + \<bar>dya\<bar> = ?step" "\<bar>dxb\<bar> + \<bar>dyb\<bar> = ?step" for dxa dya dxb dyb orig
      using wb i j ne pos cap that by (rule budget_update)
    from pos have abs: "\<bar>?step\<bar> = ?step" by simp
    from True show ?thesis
      by (simp add: separatePair_def Let_def upd abs abs_mult)
  qed
qed


lemma sweep_budget:
  assumes "withinBudget ov B s"
  shows "withinBudget ov B (sweep ov s)"
proof -
  from assms have len: "length (sBlocks s) = length B" by (simp add: withinBudget_def)
  have "withinBudget ov B (foldl (separatePair ov) s (sweepPairs (length B)))"
  proof (rule foldl_invariant [where P = "withinBudget ov B"])
    show "withinBudget ov B s" by (rule assms)
  next
    fix t :: sepState and x
    assume t: "withinBudget ov B t" and x: "x \<in> set (sweepPairs (length B))"
    obtain i j where ij: "x = (i, j)" by (cases x)
    with x have "i < j" "j < length B" using sweepPairs_bounds by blast+
    with t show "withinBudget ov B (separatePair ov t x)"
      unfolding ij by (rule separatePair_budget)
  qed
  then show ?thesis by (simp add: sweep_def len)
qed

lemma withinBudget_flags:
  "withinBudget ov B (s\<lparr>anyMoved := f, iter := k\<rparr>) = withinBudget ov B s"
  by (simp add: withinBudget_def)

lemma sweeps_budget:
  "withinBudget ov B s \<Longrightarrow> withinBudget ov B (sweeps k ov s)"
proof (induction k arbitrary: s)
  case 0
  then show ?case by simp
next
  case (Suc k)
  let ?s1 = "s\<lparr>anyMoved := False, iter := Suc (iter s)\<rparr>"
  from Suc.prems have "withinBudget ov B ?s1" by (simp only: withinBudget_flags)
  then have 1: "withinBudget ov B (sweep ov ?s1)" by (rule sweep_budget)
  show ?case
  proof (cases "anyMoved (sweep ov ?s1)")
    case True
    with Suc.IH [OF 1] show ?thesis by (simp add: Let_def)
  next
    case False
    with 1 show ?thesis by (simp add: Let_def)
  qed
qed

lemma iter_separatePair: "iter (separatePair ov s ij) = iter s"
  by (simp add: separatePair_def Let_def)

lemma iter_sweep: "iter (sweep ov s) = iter s"
proof -
  have "iter (foldl (separatePair ov) s xs) = iter s" for xs
    by (induction xs arbitrary: s) (simp_all add: iter_separatePair)
  then show ?thesis by (simp add: sweep_def)
qed

lemma sweeps_iter:
  "iter (sweeps k ov s) \<le> iter s + k
   \<and> (iter (sweeps k ov s) < iter s + k \<longrightarrow> \<not> anyMoved (sweeps k ov s))"
proof (induction k arbitrary: s)
  case 0
  show ?case by simp
next
  case (Suc k)
  let ?s' = "sweep ov (s\<lparr>anyMoved := False, iter := Suc (iter s)\<rparr>)"
  have it: "iter ?s' = Suc (iter s)" by (simp add: iter_sweep)
  show ?case
  proof (cases "anyMoved ?s'")
    case False
    with it show ?thesis by (simp add: Let_def)
  next
    case True
    with Suc.IH [of ?s'] it show ?thesis by (simp add: Let_def)
  qed
qed

lemma nudge_axis:
  assumes "nudgeWithinOverlay b 0 0 ov = b"
  shows "styleTop (nudgeWithinOverlay b dx 0 ov) = styleTop b"
    and "styleLeft (nudgeWithinOverlay b 0 dy ov) = styleLeft b"
  using assms unfolding in_bounds_iff
  by (simp_all add: nudgeWithinOverlay_def getBoundingClientRect_def Let_def)

lemma separatePair_halves:
  assumes "i < j" and "j < length (sBlocks s)"
  shows "movedOf (movedTotals (separatePair ov s (i, j))) i - movedOf (movedTotals s) i
           = movedOf (movedTotals (separatePair ov s (i, j))) j - movedOf (movedTotals s) j
       \<and> 0 \<le> movedOf (movedTotals (separatePair ov s (i, j))) i - movedOf (movedTotals s) i
       \<and> movedOf (movedTotals (separatePair ov s (i, j))) i - movedOf (movedTotals s) i \<le> 3"
proof -
  let ?ra = "getBoundingClientRect (sBlocks s ! i)"
  let ?rb = "getBoundingClientRect (sBlocks s ! j)"
  let ?step = "pairStep ?ra ?rb (movedOf (movedTotals s) i) (movedOf (movedTotals s) j)"
  from assms have ne: "i \<noteq> j" by simp
  show ?thesis
  proof (cases "rectsOverlap ?ra ?rb \<and> 0 < ?step")
    case False
    then have "separatePair ov s (i, j) = s"
      by (auto simp: separatePair_def Let_def)
    then show ?thesis by simp
  next
    case True
    then have pos: "0 < ?step" by simp
    have le: "?step \<le> 3" using pairStep_le [of ?ra ?rb] by (simp add: maxPairStep_def)
    from pos have abs: "\<bar>?step\<bar> = ?step" by simp
    from True ne pos le show ?thesis
      by (simp add: separatePair_def Let_def movedOf_addMoved abs abs_mult)
  qed
qed

lemma separatePair_axis:
  assumes "i < j" and "j < length (sBlocks s)"
    and a: "nudgeWithinOverlay (sBlocks s ! i) 0 0 ov = sBlocks s ! i"
    and b: "nudgeWithinOverlay (sBlocks s ! j) 0 0 ov = sBlocks s ! j"
  shows "if penX (getBoundingClientRect (sBlocks s ! i)) (getBoundingClientRect (sBlocks s ! j))
            \<le> penY (getBoundingClientRect (sBlocks s ! i)) (getBoundingClientRect (sBlocks s ! j))
         then styleTop (sBlocks (separatePair ov s (i, j)) ! i) = styleTop (sBlocks s ! i)
            \<and> styleTop (sBlocks (separatePair ov s (i, j)) ! j) = styleTop (sBlocks s ! j)
         else styleLeft (sBlocks (separatePair ov s (i, j)) ! i) = styleLeft (sBlocks s ! i)
            \<and> styleLeft (sBlocks (separatePair ov s (i, j)) ! j) = styleLeft (sBlocks s ! j)"
proof -
  from assms have i: "i < length (sBlocks s)" and ne: "i \<noteq> j" by auto
  from i assms(2) ne show ?thesis
    by (simp add: separatePair_def Let_def nudge_axis [OF a] nudge_axis [OF b])
qed

lemma withinBudget_initial:
  "withinBudget ov bs \<lparr>sBlocks = bs, movedTotals = Map.empty, originals = orig,
                        anyMoved = False, iter = 0\<rparr>"
  by (simp add: withinBudget_def movedOf_def maxTotal_def)

text \<open>
  Bounds of a run of the separation loop. It makes at most 10 sweeps, and when it stops
  before the tenth, its last sweep pushed nothing. The total of the pushes counted for
  an element stays between 0 and 24 pixels. A block that starts inside the overlay's
  bounds (a nudge by zero leaves it where it is) ends no further than 24 pixels from its
  start. In one pair step the counters of both members grow by the same amount, at most
  3 pixels, and for two blocks inside the bounds the coordinate across the axis of the
  smaller penetration is unchanged.
\<close>

lemma separation_bounds:
  "iter (separationRun ov bs orig) \<le> 10
   \<and> (iter (separationRun ov bs orig) < 10 \<longrightarrow> \<not> anyMoved (separationRun ov bs orig))
   \<and> (\<forall>el. 0 \<le> movedOf (movedTotals (separationRun ov bs orig)) el
           \<and> movedOf (movedTotals (separationRun ov bs orig)) el \<le> 24)
   \<and> (\<forall>el < length bs. nudgeWithinOverlay (bs ! el) 0 0 ov = bs ! el \<longrightarrow>
          \<bar>styleLeft (sBlocks (separationRun ov bs orig) ! el) - styleLeft (bs ! el)\<bar>
          + \<bar>styleTop (sBlocks (separationRun ov bs orig) ! el) - styleTop (bs ! el)\<bar> \<le> 24)
   \<and> (\<forall>s i j. i < j \<and> j < length (sBlocks s) \<longrightarrow>
          movedOf (movedTotals (separatePair ov s (i, j))) i - movedOf (movedTotals s) i
            = movedOf (movedTotals (separatePair ov s (i, j))) j - movedOf (movedTotals s) j
          \<and> 0 \<le> movedOf (movedTotals (separatePair ov s (i, j))) i - movedOf (movedTotals s) i
          \<and> movedOf (movedTotals (separatePair ov s (i, j))) i - movedOf (movedTotals s) i \<le> 3)
   \<and> (\<forall>s i j. i < j \<and> j < length (sBlocks s)
          \<and> nudgeWithinOverlay (sBlocks s ! i) 0 0 ov = sBlocks s ! i
          \<and> nudgeWithinOverlay (sBlocks s ! j) 0 0 ov = sBlocks s ! j \<longrightarrow>
          (if penX (getBoundingClientRect (sBlocks s ! i)) (getBoundingClientRect (sBlocks s ! j))
              \<le> penY (getBoundingClientRect (sBlocks s ! i)) (getBoundingClientRect (sBlocks s ! j))
           then styleTop (sBlocks (separatePair ov s (i, j)) ! i) = styleTop (sBlocks s ! i)
              \<and> styleTop (sBlocks (separatePair ov s (i, j)) ! j) = styleTop (sBlocks s ! j)
           else styleLeft (sBlocks (separatePair ov s (i, j)) ! i) = styleLeft (sBlocks s ! i)
              \<and> styleLeft (sBlocks (separatePair ov s (i, j)) ! j) = styleLeft (sBlocks s ! j)))"
proof -
  let ?init = "\<lparr>sBlocks = bs, movedTotals = Map.empty, originals = orig,
              anyMoved = False, iter = 0\<rparr>"
  let ?run = "separationRun ov bs orig"
  have run: "?run = sweeps 10 ov ?init" by (simp add: separationRun_def maxIterations_def)
  have it: "iter ?run \<le> 10 \<and> (iter ?run < 10 \<longrightarrow> \<not> anyMoved ?run)"
    using sweeps_iter [of 10 ov ?init] by (simp add: run)
  have "withinBudget ov bs (sweeps 10 ov ?init)"
    by (rule sweeps_budget) (rule withinBudget_initial)
  then have wb: "withinBudget ov bs ?run" by (simp add: run)
  then have m: "\<forall>el. 0 \<le> movedOf (movedTotals ?run) el \<and> movedOf (movedTotals ?run) el \<le> 24"
    by (simp add: withinBudget_def maxTotal_def)
  have d: "\<forall>el < length bs. nudgeWithinOverlay (bs ! el) 0 0 ov = bs ! el \<longrightarrow>
          \<bar>styleLeft (sBlocks ?run ! el) - styleLeft (bs ! el)\<bar>
          + \<bar>styleTop (sBlocks ?run ! el) - styleTop (bs ! el)\<bar> \<le> 24"
  proof (intro allI impI)
    fix el assume el: "el < length bs" and inb: "nudgeWithinOverlay (bs ! el) 0 0 ov = bs ! el"
    with wb have "\<bar>styleLeft (sBlocks ?run ! el) - styleLeft (bs ! el)\<bar>
          + \<bar>styleTop (sBlocks ?run ! el) - styleTop (bs ! el)\<bar> \<le> movedOf (movedTotals ?run) el"
      by (simp add: withinBudget_def)
    with m show "\<bar>styleLeft (sBlocks ?run ! el) - styleLeft (bs ! el)\<bar>
          + \<bar>styleTop (sBlocks ?run ! el) - styleTop (bs ! el)\<bar> \<le> 24"
      by (meson order_trans)
  qed
  from it m d separatePair_halves separatePair_axis show ?thesis by blast
qed

text \<open>
  Two blocks inside the bounds, overlapping by five pixels vertically: one sweep pushes
  them three pixels apart each, the second sweep finds nothing to push.
\<close>

lemma separation_bounds_example:
  "sBlocks (separationRun overlay500 [blockAt 10 10 100 40, blockAt 10 45 100 40] Map.empty)
     = [blockAt 10 7 100 40, blockAt 10 48 100 40]
   \<and> iter (separationRun overlay500 [blockAt 10 10 100 40, blockAt 10 45 100 40] Map.empty) \<le> 10
   \<and> \<not> anyMoved (separationRun overlay500 [blockAt 10 10 100 40, blockAt 10 45 100 40] Map.empty)
   \<and> movedOf (movedTotals
        (separationRun overlay500 [blockAt 10 10 100 40, blockAt 10 45 100 40] Map.empty)) 0 \<le> 24
   \<and> \<bar>styleLeft (sBlocks (separationRun overlay500
            [blockAt 10 10 100 40, blockAt 10 45 100 40] Map.empty) ! 0) - 10\<bar>
       + \<bar>styleTop (sBlocks (separationRun overlay500
            [blockAt 10 10 100 40, blockAt 10 45 100 40] Map.empty) ! 0) - 10\<bar> \<le> 24"
proof -
  have run: "sBlocks (separationRun overlay500 [blockAt 10 10 100 40, blockAt 10 45 100 40] Map.empty)
     = [blockAt 10 7 100 40, blockAt 10 48 100 40]"
    by code_simp
  have it: "iter (separationRun overlay500 [blockAt 10 10 100 40, blockAt 10 45 100 40] Map.empty) = 2"
    by code_simp
  have inb: "nudgeWithinOverlay ([blockAt 10 10 100 40, blockAt 10 45 100 40] ! 0) 0 0 overlay500
      = [blockAt 10 10 100 40, blockAt 10 45 100 40] ! 0"
    by (simp add: nudgeWithinOverlay_def getBoundingClientRect_def margin_def Let_def)
  show ?thesis
    using separation_bounds [of overlay500 "[blockAt 10 10 100 40, blockAt 10 45 100 40]" Map.empty]
      inb it run
    by simp
qed

text \<open>
  Claim C5. The claim bounds the cumulative displacement of every element by 24 pixels,
  and the code's comments call \<open>maxTotal\<close> the cap per element across all iterations
  and \<open>movedTotals\<close> the total pixels moved. \<open>addMoved\<close> counts the push that was
  asked for, not the change of position: the clamping in \<open>_nudgeWithinOverlay\<close> moves
  a block that starts outside the bounds without the counter seeing it. Two blocks at
  \<open>left = -15\<close> and \<open>left = -10\<close>: after 9 sweeps the second one is at
  \<open>left = 25\<close>, 35 pixels from its start, while its counter stands at 24.
\<close>

theorem clamped_block_exceeds_budget:
  "blocks (toggleSeparation (readerWith [blockAt (- 15) 10 40 100, blockAt (- 10) 10 40 100]))
     = [blockAt 4 10 40 100, blockAt 25 10 40 100]
   \<and> styleLeft (blocks (toggleSeparation
          (readerWith [blockAt (- 15) 10 40 100, blockAt (- 10) 10 40 100])) ! 1)
       - styleLeft (blockAt (- 10) 10 40 100) = 35
   \<and> movedOf (movedTotals (separationRun overlay500
          [blockAt (- 15) 10 40 100, blockAt (- 10) 10 40 100] Map.empty)) 1 = 24
   \<and> iter (separationRun overlay500 [blockAt (- 15) 10 40 100, blockAt (- 10) 10 40 100] Map.empty)
       = 9"
  by code_simp

end
